theory Spec2Isabelle
  imports Complex_Main "HOL-Library.AList" "HOL-Library.Char_ord" "HOL-Library.List_Lexorder"
begin

section \<open>Python values and exceptions\<close>

text \<open>
  The scripts \<^verbatim>\<open>scripts/collect_data.py\<close> and \<^verbatim>\<open>scripts/collect_data_new.py\<close> are
  modelled side by side. Text is a list of 8-bit characters (the ASCII part of a log
  file). A Python float is modelled by the exact decimal value its text denotes, or an
  infinity; binary rounding is not modelled.
\<close>

datatype pyfloat = Fin real | PosInf | NegInf

datatype pyval = PNone | PInt int | PFloat pyfloat | PStr string

datatype error = ValueError | OSError | KeyError | TypeError | LibraryError

type_synonym metrics = "(string \<times> pyval) list"

section \<open>Regular expressions of the extraction rules\<close>

text \<open>
  Every pattern the scripts hand to \<^verbatim>\<open>re.search\<close> is a sequence of literal text,
  greedy \<^verbatim>\<open>c+\<close> over a character class (captured or not) and the lazy \<^verbatim>\<open>.*?\<close>.
  \<^verbatim>\<open>\d\<close> is 0-9, \<^verbatim>\<open>\s\<close> is Python's ASCII white space, \<^verbatim>\<open>.\<close> is every character but
  the newline, and \<^verbatim>\<open>[\d.inf-]\<close> is the class of the accuracy rules.
\<close>

datatype cls = Digit | Space | DigitDot | AccChars | AnyChar

datatype rx = Lit string | Plus cls | CapPlus cls | LazyStar cls

definition is_digit :: "char \<Rightarrow> bool" where
  "is_digit c = (CHR ''0'' \<le> c \<and> c \<le> CHR ''9'')"

definition is_space :: "char \<Rightarrow> bool" where
  "is_space c = (let n = (of_char c :: nat) in (9 \<le> n \<and> n \<le> 13) \<or> (28 \<le> n \<and> n \<le> 32))"

fun in_cls :: "cls \<Rightarrow> char \<Rightarrow> bool" where
  "in_cls Digit c = is_digit c"
| "in_cls Space c = is_space c"
| "in_cls DigitDot c = (is_digit c \<or> c = CHR ''.'')"
| "in_cls AccChars c = (is_digit c \<or> c \<in> set ''.inf-'')"
| "in_cls AnyChar c = (c \<noteq> CHR 0x0A)"

text \<open>The first alternative that succeeds, in the order the backtracking engine tries them.\<close>

fun first_some :: "'a option list \<Rightarrow> 'a option" where
  "first_some [] = None"
| "first_some (None # xs) = first_some xs"
| "first_some (Some r # xs) = Some r"

text \<open>
  \<open>match_here p s\<close> matches the pattern at the start of \<open>s\<close> and returns the captured
  groups. A greedy \<^verbatim>\<open>c+\<close> tries the longest run first and gives characters back one at a
  time; the lazy \<^verbatim>\<open>.*?\<close> tries the shortest run first.
\<close>

fun match_here :: "rx list \<Rightarrow> string \<Rightarrow> string list option" where
  "match_here [] s = Some []"
| "match_here (Lit l # p) s =
     (if take (length l) s = l then match_here p (drop (length l) s) else None)"
| "match_here (Plus c # p) s =
     first_some (map (\<lambda>k. match_here p (drop k s))
       (rev [1 ..< Suc (length (takeWhile (in_cls c) s))]))"
| "match_here (CapPlus c # p) s =
     first_some (map (\<lambda>k. map_option (\<lambda>gs. take k s # gs) (match_here p (drop k s)))
       (rev [1 ..< Suc (length (takeWhile (in_cls c) s))]))"
| "match_here (LazyStar c # p) s =
     first_some (map (\<lambda>k. match_here p (drop k s))
       [0 ..< Suc (length (takeWhile (in_cls c) s))])"

text \<open>\<^verbatim>\<open>re.search\<close>: the leftmost position at which the pattern matches.\<close>

fun re_search :: "rx list \<Rightarrow> string \<Rightarrow> string list option" where
  "re_search p [] = match_here p []"
| "re_search p (x # xs) =
     (case match_here p (x # xs) of Some gs \<Rightarrow> Some gs | None \<Rightarrow> re_search p xs)"

section \<open>Number parsing\<close>

definition digit_val :: "char \<Rightarrow> nat" where
  "digit_val c = of_char c - of_char CHR ''0''"

text \<open>\<^verbatim>\<open>int(text)\<close> on a run of digits.\<close>

definition nat_of_digits :: "string \<Rightarrow> nat" where
  "nat_of_digits s = foldl (\<lambda>n c. 10 * n + digit_val c) 0 s"

definition py_int :: "string \<Rightarrow> error + int" where
  "py_int s = (if s \<noteq> [] \<and> list_all is_digit s then Inr (int (nat_of_digits s)) else Inl ValueError)"

text \<open>
  \<^verbatim>\<open>float(text)\<close> on the texts the rules can capture (characters out of
  \<^verbatim>\<open>0-9 . i n f -\<close>): an optional sign, then \<^verbatim>\<open>inf\<close> or digits with at most one point
  and at least one digit. Everything else raises \<^verbatim>\<open>ValueError\<close>.
\<close>

definition py_decimal :: "string \<Rightarrow> real option" where
  "py_decimal s =
     (let ip = takeWhile is_digit s; rest = dropWhile is_digit s in
      case rest of
        [] \<Rightarrow> if ip = [] then None else Some (real (nat_of_digits ip))
      | c # fp \<Rightarrow>
          if c = CHR ''.'' \<and> list_all is_digit fp \<and> (ip \<noteq> [] \<or> fp \<noteq> [])
          then Some (real (nat_of_digits ip) + real (nat_of_digits fp) / 10 ^ length fp)
          else None)"

definition py_float :: "string \<Rightarrow> error + pyfloat" where
  "py_float s =
     (let neg = (take 1 s = ''-''); body = (if neg then drop 1 s else s) in
      if body = ''inf'' then Inr (if neg then NegInf else PosInf)
      else case py_decimal body of
             None \<Rightarrow> Inl ValueError
           | Some r \<Rightarrow> Inr (Fin (if neg then - r else r)))"

section \<open>The metric extractor\<close>

text \<open>
  Every rule of \<^verbatim>\<open>parse_champsim_file\<close> has one shape: search the pattern; when it
  matches, store the converted groups under their keys, in order. A conversion that
  raises ends the function with that exception: the only handler around the rules is
  \<^verbatim>\<open>except IOError\<close>.
\<close>

definition conv_int :: "string \<Rightarrow> error + pyval" where
  "conv_int s = (case py_int s of Inl e \<Rightarrow> Inl e | Inr n \<Rightarrow> Inr (PInt n))"

definition conv_float :: "string \<Rightarrow> error + pyval" where
  "conv_float s = (case py_float s of Inl e \<Rightarrow> Inl e | Inr x \<Rightarrow> Inr (PFloat x))"

text \<open>
  The accuracy rules of \<^verbatim>\<open>collect_data_new.py\<close> alone catch the \<^verbatim>\<open>ValueError\<close>, and
  then keep the captured text itself.
\<close>

definition conv_accuracy :: "string \<Rightarrow> error + pyval" where
  "conv_accuracy s = (case py_float s of Inl e \<Rightarrow> Inr (PStr s) | Inr x \<Rightarrow> Inr (PFloat x))"

type_synonym rule = "rx list \<times> (string \<times> (string \<Rightarrow> error + pyval)) list"

fun assign_groups :: "((string \<times> (string \<Rightarrow> error + pyval)) \<times> string) list \<Rightarrow> metrics \<Rightarrow> error + metrics" where
  "assign_groups [] m = Inr m"
| "assign_groups (((key, conv), g) # rest) m =
     (case conv g of Inl e \<Rightarrow> Inl e | Inr v \<Rightarrow> assign_groups rest (AList.update key v m))"

definition apply_rule :: "string \<Rightarrow> rule \<Rightarrow> metrics \<Rightarrow> error + metrics" where
  "apply_rule content r m =
     (case re_search (fst r) content of
        None \<Rightarrow> Inr m
      | Some gs \<Rightarrow> assign_groups (zip (snd r) gs) m)"

fun run_rules :: "string \<Rightarrow> rule list \<Rightarrow> metrics \<Rightarrow> error + metrics" where
  "run_rules content [] m = Inr m"
| "run_rules content (r # rs) m =
     (case apply_rule content r m of Inl e \<Rightarrow> Inl e | Inr m' \<Rightarrow> run_rules content rs m')"

text \<open>\<^verbatim>\<open>os.path.basename\<close>: the text after the last slash.\<close>

definition basename :: "string \<Rightarrow> string" where
  "basename p = rev (takeWhile (\<lambda>c. c \<noteq> CHR ''/'') (rev p))"

subsection \<open>\<^verbatim>\<open>collect_data.py\<close>\<close>

definition total_stats_pat :: "string \<Rightarrow> rx list" where
  "total_stats_pat label =
     [Lit label, Plus Space, Lit ''ACCESS:'', Plus Space, CapPlus Digit, Plus Space,
      Lit ''HIT:'', Plus Space, CapPlus Digit, Plus Space, Lit ''MISS:'', Plus Space,
      CapPlus Digit, LazyStar AnyChar, Lit ''MPKI:'', Plus Space, CapPlus DigitDot]"

definition float_stat_pat :: "string \<Rightarrow> rx list" where
  "float_stat_pat label = [Lit label, Plus Space, CapPlus DigitDot]"

definition ipc_rule :: rule where
  "ipc_rule = (float_stat_pat ''CPU 0 cumulative IPC:'', [(''IPC'', conv_float)])"

definition rules_old :: "rule list" where
  "rules_old =
     [ipc_rule,
      (total_stats_pat ''LLC TOTAL'',
       [(''LLC Total Access'', conv_int), (''LLC Total Hits'', conv_int),
        (''LLC Total Misses'', conv_int), (''LLC Total MPKI'', conv_float)]),
      (total_stats_pat ''LLC LOAD'',
       [(''LLC Load Access'', conv_int), (''LLC Load Hit'', conv_int),
        (''LLC Load Miss'', conv_int), (''LLC Load MPKI'', conv_float)]),
      (float_stat_pat ''L2C DATA LOAD MPKI:'', [(''L2C Data Load MPKI'', conv_float)]),
      ([Lit ''L1D PREFETCH'', Plus Space, Lit ''REQUESTED:'', Plus Space, CapPlus Digit,
        Plus Space, Lit ''ISSUED:'', Plus Space, CapPlus Digit, Plus Space, Lit ''USEFUL:'',
        Plus Space, CapPlus Digit, Plus Space, Lit ''USELESS:'', Plus Space, CapPlus Digit],
       [(''L1D Prefetch Requested'', conv_int), (''L1D Prefetch Issued'', conv_int),
        (''L1D Prefetch Useful'', conv_int), (''L1D Prefetch Useless'', conv_int)]),
      ([Lit ''L1D USEFUL LOAD PREFETCHES:'', Plus Space, CapPlus Digit],
       [(''L1D Useful Load Prefetches'', conv_int)]),
      ([Lit ''L1D TIMELY PREFETCHES:'', Plus Space, CapPlus Digit, Plus Space,
        Lit ''LATE PREFETCHES:'', Plus Space, CapPlus Digit, Plus Space,
        Lit ''DROPPED PREFETCHES:'', Plus Space, CapPlus Digit],
       [(''L1D Timely Prefetches'', conv_int), (''L1D Late Prefetches'', conv_int),
        (''L1D Dropped Prefetches'', conv_int)]),
      (float_stat_pat ''LLC AVERAGE MISS LATENCY:'', [(''LLC Average Miss Latency'', conv_float)])]"

definition fields_old :: "string list" where
  "fields_old =
     [''IPC'', ''LLC Total Access'', ''LLC Total Hits'', ''LLC Total Misses'', ''LLC Total MPKI'',
      ''LLC Load Access'', ''LLC Load Hit'', ''LLC Load Miss'', ''LLC Load MPKI'',
      ''L2C Data Load MPKI'', ''L1D Prefetch Requested'', ''L1D Prefetch Issued'',
      ''L1D Prefetch Useful'', ''L1D Prefetch Useless'', ''L1D Useful Load Prefetches'',
      ''L1D Timely Prefetches'', ''L1D Late Prefetches'', ''L1D Dropped Prefetches'',
      ''LLC Average Miss Latency'']"

definition init_metrics :: "string list \<Rightarrow> string \<Rightarrow> metrics" where
  "init_metrics fields filepath =
     (''Trace File'', PStr (basename filepath)) # map (\<lambda>k. (k, PNone)) fields"

text \<open>
  \<open>parse_champsim_file\<close> takes the path and what opening and reading the file gives:
  \<open>None\<close> when that raises \<^verbatim>\<open>IOError\<close>. The result is \<open>Inr None\<close> for the
  \<^verbatim>\<open>return None\<close> of the handler, \<open>Inr (Some m)\<close> for a record, and \<open>Inl e\<close> for an
  exception that leaves the function.
\<close>

definition parse_with :: "string list \<Rightarrow> rule list \<Rightarrow> string \<Rightarrow> string option \<Rightarrow> error + metrics option" where
  "parse_with fields rules filepath file =
     (case file of
        None \<Rightarrow> Inr None
      | Some content \<Rightarrow>
          (case run_rules content rules (init_metrics fields filepath) of
             Inl e \<Rightarrow> Inl e
           | Inr m \<Rightarrow> Inr (Some m)))"

definition parse_champsim_file :: "string \<Rightarrow> string option \<Rightarrow> error + metrics option" where
  "parse_champsim_file = parse_with fields_old rules_old"

subsection \<open>\<^verbatim>\<open>collect_data_new.py\<close>\<close>

text \<open>
  The newer script repeats one block of five rules for each of \<^verbatim>\<open>L1D\<close>, \<^verbatim>\<open>L2C\<close> and
  \<^verbatim>\<open>LLC\<close>; \<open>level_rules\<close> is that block with the level's name as parameter.
\<close>

definition level_rules :: "string \<Rightarrow> rule list" where
  "level_rules lv =
     [(total_stats_pat (lv @ '' TOTAL''),
       [(lv @ '' Total Access'', conv_int), (lv @ '' Total Hit'', conv_int),
        (lv @ '' Total Miss'', conv_int), (lv @ '' Total MPKI'', conv_float)]),
      ([Lit (lv @ '' PREFETCH''), Plus Space, Lit ''ACCESS:'', Plus Space, CapPlus Digit],
       [(lv @ '' Prefetch Access'', conv_int)]),
      ([Lit (lv @ '' PREFETCH''), Plus Space, Lit ''REQUESTED:'', Plus Space, Plus Digit,
        Plus Space, Lit ''ISSUED:'', Plus Space, CapPlus Digit, Plus Space, Lit ''USEFUL:'',
        Plus Space, CapPlus Digit],
       [(lv @ '' Prefetch Issued'', conv_int), (lv @ '' Prefetch Useful'', conv_int)]),
      ([Lit (lv @ '' USEFUL LOAD PREFETCHES:''), LazyStar AnyChar, Lit ''ACCURACY:'',
        Plus Space, CapPlus AccChars],
       [(lv @ '' Prefetch Accuracy'', conv_accuracy)]),
      (float_stat_pat (lv @ '' AVERAGE MISS LATENCY:''),
       [(lv @ '' Average Miss Latency'', conv_float)])]"

definition level_fields :: "string \<Rightarrow> string list" where
  "level_fields lv =
     map (\<lambda>f. lv @ f)
       ['' Total Access'', '' Total Hit'', '' Total Miss'', '' Total MPKI'',
        '' Prefetch Access'', '' Prefetch Issued'', '' Prefetch Useful'',
        '' Prefetch Accuracy'', '' Average Miss Latency'']"

definition rules_new :: "rule list" where
  "rules_new = ipc_rule # level_rules ''L1D'' @ level_rules ''L2C'' @ level_rules ''LLC''"

definition fields_new :: "string list" where
  "fields_new = ''IPC'' # level_fields ''L1D'' @ level_fields ''L2C'' @ level_fields ''LLC''"

definition parse_champsim_file_new :: "string \<Rightarrow> string option \<Rightarrow> error + metrics option" where
  "parse_champsim_file_new = parse_with fields_new rules_new"

text \<open>\<^verbatim>\<open>parse_champsim_file(None)\<close>: the keys of the record, in order.\<close>

definition headers_new :: "string list" where
  "headers_new = ''Trace File'' # fields_new"

section \<open>Natural sort\<close>

definition to_lower :: "char \<Rightarrow> char" where
  "to_lower c = (if CHR ''A'' \<le> c \<and> c \<le> CHR ''Z'' then char_of (of_char c + (32::nat)) else c)"

text \<open>\<^verbatim>\<open>text.isdigit()\<close>: not empty and digits only.\<close>

definition isdigit_str :: "string \<Rightarrow> bool" where
  "isdigit_str t = (t \<noteq> [] \<and> list_all is_digit t)"

text \<open>
  \<^verbatim>\<open>re.split('([0-9]+)', s)\<close>: the text before the first run of digits, then that run,
  and so on; the last element is the text after the last run.
\<close>

function re_split_digits :: "string \<Rightarrow> string list" where
  "re_split_digits s =
     (let pre = takeWhile (\<lambda>c. \<not> is_digit c) s; rest = dropWhile (\<lambda>c. \<not> is_digit c) s in
      if rest = [] then [pre]
      else pre # takeWhile is_digit rest # re_split_digits (dropWhile is_digit rest))"
  by pat_completeness auto
termination
proof (relation "measure length", goal_cases)
  case 1
  show ?case by simp
next
  case (2 s pre rest)
  then obtain c cs where rest: "dropWhile (\<lambda>c. \<not> is_digit c) s = c # cs"
    by (cases "dropWhile (\<lambda>c. \<not> is_digit c) s") auto
  then have "is_digit c"
    using hd_dropWhile [of "\<lambda>c. \<not> is_digit c" s] by auto
  then have "length (dropWhile is_digit (c # cs)) \<le> length cs"
    by (simp add: length_dropWhile_le)
  moreover have "length (c # cs) \<le> length s"
    using rest length_dropWhile_le [of "\<lambda>c. \<not> is_digit c" s] by simp
  ultimately show ?case using 2 rest by simp
qed

text \<open>
  An element of a sort key: \<^verbatim>\<open>int(text)\<close> or \<^verbatim>\<open>text.lower()\<close>. Python compares two keys
  as lists, element by element. The order below puts every number before every text;
  Python raises \<^verbatim>\<open>TypeError\<close> on such a pair, and \<open>natural_sort_key\<close> never produces
  one at the same position of two keys (texts stand at the even positions, numbers at
  the odd ones).
\<close>

datatype key_part = KInt int | KStr string

fun key_part_le :: "key_part \<Rightarrow> key_part \<Rightarrow> bool" where
  "key_part_le (KInt m) (KInt n) = (m \<le> n)"
| "key_part_le (KStr s) (KStr t) = (s \<le> t)"
| "key_part_le (KInt m) (KStr t) = True"
| "key_part_le (KStr s) (KInt n) = False"

instantiation key_part :: linorder
begin

definition less_eq_key_part :: "key_part \<Rightarrow> key_part \<Rightarrow> bool" where
  "less_eq_key_part a b = key_part_le a b"

definition less_key_part :: "key_part \<Rightarrow> key_part \<Rightarrow> bool" where
  "less_key_part a b = (key_part_le a b \<and> \<not> key_part_le b a)"

instance
proof
  fix x y z :: key_part
  show "(x < y) = (x \<le> y \<and> \<not> y \<le> x)"
    by (simp add: less_key_part_def less_eq_key_part_def)
  show "x \<le> x"
    by (cases x) (simp_all add: less_eq_key_part_def)
  show "x \<le> y \<Longrightarrow> y \<le> z \<Longrightarrow> x \<le> z"
    by (cases x; cases y; cases z) (auto simp: less_eq_key_part_def)
  show "x \<le> y \<Longrightarrow> y \<le> x \<Longrightarrow> x = y"
    by (cases x; cases y) (auto simp: less_eq_key_part_def)
  show "x \<le> y \<or> y \<le> x"
    by (cases x; cases y) (auto simp: less_eq_key_part_def)
qed

end

definition natural_sort_key :: "string \<Rightarrow> key_part list" where
  "natural_sort_key s =
     map (\<lambda>t. if isdigit_str t then KInt (int (nat_of_digits t)) else KStr (map to_lower t))
       (re_split_digits s)"

text \<open>
  \<^verbatim>\<open>df['Experiment'].unique()\<close> keeps the first occurrence of each value, in order.
\<close>

fun unique :: "'a list \<Rightarrow> 'a list" where
  "unique [] = []"
| "unique (x # xs) = x # filter (\<lambda>y. y \<noteq> x) (unique xs)"

text \<open>
  \<^verbatim>\<open>sorted(xs, key=natural_sort_key)\<close>. Python's sort is stable; \<open>sort_key\<close> is the
  stable insertion sort of the library.
\<close>

definition sorted_natural :: "string list \<Rightarrow> string list" where
  "sorted_natural xs = sort_key natural_sort_key xs"

section \<open>The file system and the environment of a run\<close>

type_synonym path = string
type_synonym mtime = real

text \<open>
  A file of the result tree: its name, what \<^verbatim>\<open>os.path.getmtime\<close> gives (\<open>None\<close>: it
  raises \<^verbatim>\<open>OSError\<close>, as on a dangling link) and what opening and reading it gives
  (\<open>None\<close>: \<^verbatim>\<open>IOError\<close>).
\<close>

record file_entry =
  fname :: string
  fmtime :: "mtime option"
  ftext :: "string option"

text \<open>
  \<^verbatim>\<open>os.walk(RESULTS_DIR)\<close>: the directories in visiting order, each with the parts of its
  path relative to the root (\<^verbatim>\<open>relative_path.split(os.sep)\<close>) and its files.
\<close>

type_synonym walk = "(string list \<times> file_entry list) list"

datatype 'a file_state = Missing | Corrupt | Holds 'a

type_synonym dataset = "(string \<times> (path \<times> metrics) list) list"

text \<open>
  A sheet is its rows. Styling and the wording of the header lines are presentation and
  are left out: a header row records which header it is.
\<close>

datatype row =
    MainHeader string
  | MergedRow
  | ColHeaders "string list"
  | BlankRow
  | ExpHeader string
  | Cells "pyval list"

type_synonym sheet = "row list"
type_synonym workbook = "(string \<times> sheet) list"

record fs_state =
  out_dir :: bool
  results :: "walk option"
  log_file :: "(path \<times> mtime) list file_state"
  cache_file :: "dataset file_state"
  report :: "workbook file_state"
  tmp_report :: "workbook file_state"

text \<open>
  What a write does is the environment's choice: it succeeds, it raises before the
  target is touched, or it raises after the target has been opened for writing, which
  leaves a truncated file.
\<close>

datatype write_outcome = Written | FailsUntouched | FailsPartial

record env =
  makedirs_ok :: bool
  sheet_fails :: "string \<Rightarrow> bool"
  save_book :: write_outcome
  move_book :: write_outcome
  save_cache :: write_outcome
  save_log :: write_outcome

datatype msg =
    MsgDirNotFound
  | MsgStartScan
  | MsgProcessingDir string
  | MsgReadError path
  | MsgScanComplete nat nat
  | MsgUpToDate
  | MsgUpdating
  | MsgPreserving string
  | MsgWarnOldBook
  | MsgGroup string
  | MsgSheetDone string
  | MsgSaveWarning path
  | MsgSuccess
  | MsgWriteError

definition RESULTS_DIR :: string where
  "RESULTS_DIR = ''../results/''"

definition PROCESSED_LOG_FILE :: string where
  "PROCESSED_LOG_FILE = ''.processed_files.log''"

definition DATA_CACHE_FILE :: string where
  "DATA_CACHE_FILE = ''.data_cache.json''"

text \<open>\<open>load_json_data\<close>: a missing or corrupt file gives the empty dictionary.\<close>

definition load_json_data :: "'a list file_state \<Rightarrow> 'a list" where
  "load_json_data f = (case f of Holds d \<Rightarrow> d | Missing \<Rightarrow> [] | Corrupt \<Rightarrow> [])"

definition write_file :: "write_outcome \<Rightarrow> 'a \<Rightarrow> 'a file_state \<Rightarrow> 'a file_state" where
  "write_file w d f = (case w of Written \<Rightarrow> Holds d | FailsUntouched \<Rightarrow> f | FailsPartial \<Rightarrow> Corrupt)"

text \<open>
  \<open>save_json_data\<close> catches the \<^verbatim>\<open>IOError\<close> and prints a warning; it never raises.
\<close>

definition save_json_data :: "write_outcome \<Rightarrow> path \<Rightarrow> 'a \<Rightarrow> 'a file_state \<Rightarrow> 'a file_state \<times> msg list" where
  "save_json_data w file_path d f =
     (write_file w d f, if w = Written then [] else [MsgSaveWarning file_path])"

section \<open>The scan\<close>

record scan_state =
  data_by_prefetcher :: dataset
  processed_files_log :: "(path \<times> mtime) list"
  new_files_count :: nat
  skipped_files_count :: nat
  announced_dirs :: "string list"
  out :: "msg list"

text \<open>\<^verbatim>\<open>data_by_prefetcher[group_key][filepath] = record\<close> on a \<^verbatim>\<open>defaultdict(dict)\<close>.\<close>

definition store :: "string \<Rightarrow> path \<Rightarrow> metrics \<Rightarrow> dataset \<Rightarrow> dataset" where
  "store group_key filepath r d =
     AList.update group_key
       (AList.update filepath r (case map_of d group_key of None \<Rightarrow> [] | Some g \<Rightarrow> g)) d"

text \<open>\<^verbatim>\<open>'/'.join(parts)\<close> and \<^verbatim>\<open>os.path.join(root, filename)\<close>.\<close>

fun join_sep :: "string list \<Rightarrow> string" where
  "join_sep [] = []"
| "join_sep [x] = x"
| "join_sep (x # y # ys) = x @ ''/'' @ join_sep (y # ys)"

definition root_of :: "string list \<Rightarrow> string" where
  "root_of path_parts = RESULTS_DIR @ join_sep path_parts"

definition path_join :: "string \<Rightarrow> string \<Rightarrow> string" where
  "path_join root_dir filename = root_dir @ ''/'' @ filename"

text \<open>
  The group key and the experiment of a directory, from the parts of its relative
  path; \<open>None\<close> where the script leaves the variable \<^verbatim>\<open>None\<close>.
\<close>

definition derive_keys :: "string list \<Rightarrow> string option \<times> string option" where
  "derive_keys path_parts =
     (case path_parts of
        [cache_level, prefetcher, experiment] \<Rightarrow>
          (Some (cache_level @ ''_'' @ prefetcher), Some experiment)
      | [cache_level, experiment] \<Rightarrow>
          (if cache_level = ''no_pref'' then Some cache_level else None, Some experiment)
      | _ \<Rightarrow> (None, None))"

text \<open>Truth of an optional string: neither \<^verbatim>\<open>None\<close> nor empty.\<close>

definition truthy :: "string option \<Rightarrow> bool" where
  "truthy x = (case x of None \<Rightarrow> False | Some s \<Rightarrow> s \<noteq> [])"

type_synonym parser = "string \<Rightarrow> string option \<Rightarrow> error + metrics option"

text \<open>
  One pass of the inner loop. An exception that leaves the loop is \<open>Inl\<close>, with what
  had been printed by then.
\<close>

definition scan_file ::
  "parser \<Rightarrow> dataset \<Rightarrow> string \<Rightarrow> string \<Rightarrow> string list \<Rightarrow> scan_state \<Rightarrow> file_entry \<Rightarrow>
   (error \<times> msg list) + scan_state" where
  "scan_file parse cached_data group_key experiment path_parts st f =
     (let root_dir = root_of path_parts; filepath = path_join root_dir (fname f) in
      case fmtime f of
        None \<Rightarrow> Inl (OSError, out st)
      | Some file_mod_time \<Rightarrow>
          if map_of (processed_files_log st) filepath = Some file_mod_time then
            Inr (st\<lparr>data_by_prefetcher :=
                      (case map_of cached_data group_key of
                         None \<Rightarrow> data_by_prefetcher st
                       | Some g \<Rightarrow>
                           (case map_of g filepath of
                              None \<Rightarrow> data_by_prefetcher st
                            | Some r \<Rightarrow> store group_key filepath r (data_by_prefetcher st))),
                    skipped_files_count := skipped_files_count st + 1\<rparr>)
          else
            let st1 = (if root_dir \<in> set (announced_dirs st) then st
                       else st\<lparr>out := out st @ [MsgProcessingDir (join_sep path_parts)],
                               announced_dirs := root_dir # announced_dirs st\<rparr>);
                st2 = st1\<lparr>new_files_count := new_files_count st1 + 1\<rparr>
            in (case parse filepath (ftext f) of
                  Inl e \<Rightarrow> Inl (e, out st2)
                | Inr None \<Rightarrow> Inr (st2\<lparr>out := out st2 @ [MsgReadError filepath]\<rparr>)
                | Inr (Some metrics) \<Rightarrow>
                    (if metrics \<noteq> [] then
                       Inr (st2\<lparr>data_by_prefetcher :=
                                  store group_key filepath
                                    (AList.update ''Experiment'' (PStr experiment) metrics)
                                    (data_by_prefetcher st2),
                                processed_files_log :=
                                  AList.update filepath file_mod_time (processed_files_log st2)\<rparr>)
                     else Inr st2)))"

fun scan_files ::
  "parser \<Rightarrow> dataset \<Rightarrow> string \<Rightarrow> string \<Rightarrow> string list \<Rightarrow> scan_state \<Rightarrow> file_entry list \<Rightarrow>
   (error \<times> msg list) + scan_state" where
  "scan_files parse cached_data group_key experiment path_parts st [] = Inr st"
| "scan_files parse cached_data group_key experiment path_parts st (f # fs) =
     (case scan_file parse cached_data group_key experiment path_parts st f of
        Inl e \<Rightarrow> Inl e
      | Inr st' \<Rightarrow> scan_files parse cached_data group_key experiment path_parts st' fs)"

definition scan_dir ::
  "parser \<Rightarrow> dataset \<Rightarrow> scan_state \<Rightarrow> string list \<times> file_entry list \<Rightarrow> (error \<times> msg list) + scan_state" where
  "scan_dir parse cached_data st d =
     (case d of (path_parts, files) \<Rightarrow>
        if files = [] then Inr st
        else case derive_keys path_parts of (group_key, experiment) \<Rightarrow>
          if truthy group_key \<and> truthy experiment then
            scan_files parse cached_data (the group_key) (the experiment) path_parts st
              (sort_key fname files)
          else Inr st)"

fun scan_dirs :: "parser \<Rightarrow> dataset \<Rightarrow> scan_state \<Rightarrow> walk \<Rightarrow> (error \<times> msg list) + scan_state" where
  "scan_dirs parse cached_data st [] = Inr st"
| "scan_dirs parse cached_data st (d # ds) =
     (case scan_dir parse cached_data st d of
        Inl e \<Rightarrow> Inl e
      | Inr st' \<Rightarrow> scan_dirs parse cached_data st' ds)"

section \<open>Report synthesis\<close>

datatype script = CollectData | CollectDataNew

definition parser_of :: "script \<Rightarrow> parser" where
  "parser_of sc = (case sc of CollectData \<Rightarrow> parse_champsim_file | CollectDataNew \<Rightarrow> parse_champsim_file_new)"

definition experiment_of :: "metrics \<Rightarrow> string option" where
  "experiment_of r = (case map_of r ''Experiment'' of Some (PStr e) \<Rightarrow> Some e | _ \<Rightarrow> None)"

text \<open>
  \<^verbatim>\<open>sorted(df['Experiment'].unique(), key=natural_sort_key)\<close>. The column is missing
  (\<^verbatim>\<open>KeyError\<close>) when no record has the key; a value that is not a string makes
  \<^verbatim>\<open>re.split\<close> raise \<^verbatim>\<open>TypeError\<close>.
\<close>

definition experiments :: "metrics list \<Rightarrow> error + string list" where
  "experiments data_list =
     (if list_all (\<lambda>r. map_of r ''Experiment'' = None) data_list then Inl KeyError
      else if list_all (\<lambda>r. experiment_of r \<noteq> None) data_list
      then Inr (sorted_natural (unique (map (\<lambda>r. the (experiment_of r)) data_list)))
      else Inl TypeError)"

text \<open>
  The columns and the value written for a column. \<^verbatim>\<open>collect_data.py\<close> takes the columns
  of the data frame without \<^verbatim>\<open>Experiment\<close>; \<^verbatim>\<open>collect_data_new.py\<close> takes the fixed
  header list and writes the text \<^verbatim>\<open>NaN\<close> for a missing value.
\<close>

definition columns :: "script \<Rightarrow> metrics list \<Rightarrow> string list" where
  "columns sc data_list =
     (case sc of
        CollectData \<Rightarrow> filter (\<lambda>k. k \<noteq> ''Experiment'') (unique (concat (map (map fst) data_list)))
      | CollectDataNew \<Rightarrow> headers_new)"

definition cell_value :: "script \<Rightarrow> metrics \<Rightarrow> string \<Rightarrow> pyval" where
  "cell_value sc r k =
     (case sc of
        CollectData \<Rightarrow> (case map_of r k of None \<Rightarrow> PNone | Some v \<Rightarrow> v)
      | CollectDataNew \<Rightarrow>
          (case map_of r k of None \<Rightarrow> PStr ''NaN'' | Some PNone \<Rightarrow> PStr ''NaN'' | Some v \<Rightarrow> v))"

text \<open>
  The rows of one experiment: its header line, then one row per record of the
  experiment; a blank row separates it from the experiment before.
\<close>

definition experiment_rows :: "script \<Rightarrow> string list \<Rightarrow> metrics list \<Rightarrow> string \<Rightarrow> row list" where
  "experiment_rows sc cols data_list experiment =
     ExpHeader experiment #
     map (\<lambda>r. Cells (map (cell_value sc r) cols))
       (filter (\<lambda>r. experiment_of r = Some experiment) data_list)"

fun write_experiments :: "script \<Rightarrow> string list \<Rightarrow> metrics list \<Rightarrow> nat \<Rightarrow> string list \<Rightarrow> row list" where
  "write_experiments sc cols data_list current_row [] = []"
| "write_experiments sc cols data_list current_row (e # es) =
     (let rows = experiment_rows sc cols data_list e in
      (if current_row > 3 then [BlankRow] else []) @ rows @
      write_experiments sc cols data_list
        ((if current_row > 3 then current_row + 1 else current_row) + length rows) es)"

definition build_sheet :: "script \<Rightarrow> string \<Rightarrow> metrics list \<Rightarrow> error + sheet" where
  "build_sheet sc group_key data_list =
     (case experiments data_list of
        Inl e \<Rightarrow> Inl e
      | Inr es \<Rightarrow>
          Inr ([MainHeader group_key, MergedRow, ColHeaders (columns sc data_list)] @
               write_experiments sc (columns sc data_list) data_list 3 es))"

definition sheet_name_of :: "string \<Rightarrow> string" where
  "sheet_name_of group_key = ''raw_'' @ group_key"

text \<open>
  \<^verbatim>\<open>collect_data.py\<close> removes the sheet of the same name from the loaded workbook, if
  the workbook had one when it was loaded, and creates the sheet anew;
  \<^verbatim>\<open>collect_data_new.py\<close> creates the sheet in its new workbook.
\<close>

definition create_sheet :: "script \<Rightarrow> string list \<Rightarrow> string \<Rightarrow> sheet \<Rightarrow> workbook \<Rightarrow> workbook" where
  "create_sheet sc sheet_names name sh book =
     (case sc of
        CollectData \<Rightarrow>
          (if name \<in> set sheet_names then filter (\<lambda>ns. fst ns \<noteq> name) book else book) @ [(name, sh)]
      | CollectDataNew \<Rightarrow> book @ [(name, sh)])"

fun write_groups ::
  "script \<Rightarrow> env \<Rightarrow> string list \<Rightarrow> dataset \<Rightarrow> string list \<Rightarrow> workbook \<Rightarrow> msg list \<Rightarrow>
   (error \<times> msg list) + (workbook \<times> msg list)" where
  "write_groups sc ev sheet_names d [] book ms = Inr (book, ms)"
| "write_groups sc ev sheet_names d (group_key # gs) book ms =
     (let data_list = map snd (case map_of d group_key of None \<Rightarrow> [] | Some g \<Rightarrow> g) in
      if data_list = [] then write_groups sc ev sheet_names d gs book ms
      else if sheet_fails ev group_key then Inl (LibraryError, ms @ [MsgGroup group_key])
      else (case build_sheet sc group_key data_list of
              Inl e \<Rightarrow> Inl (e, ms @ [MsgGroup group_key])
            | Inr sh \<Rightarrow>
                write_groups sc ev sheet_names d gs
                  (create_sheet sc sheet_names (sheet_name_of group_key) sh book)
                  (ms @ [MsgGroup group_key, MsgSheetDone (sheet_name_of group_key)])))"

text \<open>
  The workbook the sheets are written into. \<^verbatim>\<open>collect_data.py\<close> loads the persisted
  report (a corrupt one makes \<^verbatim>\<open>load_workbook\<close> raise) or starts an empty one;
  \<^verbatim>\<open>collect_data_new.py\<close> starts an empty one and copies into it the sheets of the
  persisted report whose names do not start with \<^verbatim>\<open>raw_\<close>, with a warning instead when
  the report cannot be loaded.
\<close>

definition custom_sheets :: "workbook \<Rightarrow> workbook" where
  "custom_sheets old_book = filter (\<lambda>ns. take 4 (fst ns) \<noteq> ''raw_'') old_book"

definition open_book :: "script \<Rightarrow> workbook file_state \<Rightarrow> error + (workbook \<times> string list \<times> msg list)" where
  "open_book sc rep =
     (case sc of
        CollectData \<Rightarrow>
          (case rep of
             Missing \<Rightarrow> Inr ([], [], [])
           | Corrupt \<Rightarrow> Inl LibraryError
           | Holds book \<Rightarrow> Inr (book, map fst book, []))
      | CollectDataNew \<Rightarrow>
          (case rep of
             Missing \<Rightarrow> Inr ([], [], [])
           | Corrupt \<Rightarrow> Inr ([], [], [MsgWarnOldBook])
           | Holds old_book \<Rightarrow>
               Inr (custom_sheets old_book, [], map (\<lambda>ns. MsgPreserving (fst ns)) (custom_sheets old_book))))"

text \<open>
  Persisting the workbook. \<^verbatim>\<open>collect_data.py\<close> saves it at the path of the report;
  \<^verbatim>\<open>collect_data_new.py\<close> saves it at a temporary path and moves that file to the path
  of the report. \<open>Inl\<close> is a raised exception, with the file system it leaves.
\<close>

definition persist_book :: "script \<Rightarrow> env \<Rightarrow> workbook \<Rightarrow> fs_state \<Rightarrow> fs_state + fs_state" where
  "persist_book sc ev book fs =
     (case sc of
        CollectData \<Rightarrow>
          (let fs' = fs\<lparr>report := write_file (save_book ev) book (report fs)\<rparr> in
           if save_book ev = Written then Inr fs' else Inl fs')
      | CollectDataNew \<Rightarrow>
          (let fs' = fs\<lparr>tmp_report := write_file (save_book ev) book (tmp_report fs)\<rparr> in
           if save_book ev \<noteq> Written then Inl fs'
           else (case move_book ev of
                   Written \<Rightarrow> Inr (fs'\<lparr>report := Holds book, tmp_report := Missing\<rparr>)
                 | FailsUntouched \<Rightarrow> Inl fs'
                 | FailsPartial \<Rightarrow> Inl (fs'\<lparr>report := Corrupt\<rparr>))))"

text \<open>\<^verbatim>\<open>record.pop('_is_new', None)\<close> on every record.\<close>

definition clean_cache :: "dataset \<Rightarrow> dataset" where
  "clean_cache d = map (\<lambda>(g, recs). (g, map (\<lambda>(p, r). (p, AList.delete ''_is_new'' r)) recs)) d"

record run_result =
  final :: fs_state
  printed :: "msg list"
  raised :: "error option"

text \<open>
  The \<^verbatim>\<open>try\<close> block of \<open>main\<close>: every exception raised in it is caught, and answered
  with one message.
\<close>

definition synth :: "script \<Rightarrow> env \<Rightarrow> fs_state \<Rightarrow> scan_state \<Rightarrow> run_result" where
  "synth sc ev fs st =
     (let ms = out st @ [MsgUpdating] in
      case open_book sc (report fs) of
        Inl e \<Rightarrow> \<lparr>final = fs, printed = ms @ [MsgWriteError], raised = None\<rparr>
      | Inr (book, sheet_names, ms0) \<Rightarrow>
          (case write_groups sc ev sheet_names (data_by_prefetcher st)
                  (sort_key (\<lambda>k. k) (map fst (data_by_prefetcher st))) book (ms @ ms0) of
             Inl (e, ms1) \<Rightarrow> \<lparr>final = fs, printed = ms1 @ [MsgWriteError], raised = None\<rparr>
           | Inr (book', ms1) \<Rightarrow>
               (case persist_book sc ev book' fs of
                  Inl fs' \<Rightarrow> \<lparr>final = fs', printed = ms1 @ [MsgWriteError], raised = None\<rparr>
                | Inr fs' \<Rightarrow>
                    (let c = save_json_data (save_cache ev) DATA_CACHE_FILE
                               (clean_cache (data_by_prefetcher st)) (cache_file fs');
                         l = save_json_data (save_log ev) PROCESSED_LOG_FILE
                               (processed_files_log st) (log_file fs')
                     in \<lparr>final = fs'\<lparr>cache_file := fst c, log_file := fst l\<rparr>,
                         printed = ms1 @ snd c @ snd l @ [MsgSuccess],
                         raised = None\<rparr>))))"

section \<open>The run\<close>

definition init_state :: "(path \<times> mtime) list \<Rightarrow> scan_state" where
  "init_state lg =
     \<lparr>data_by_prefetcher = [], processed_files_log = lg, new_files_count = 0,
      skipped_files_count = 0, announced_dirs = [], out = [MsgStartScan]\<rparr>"

text \<open>
  \<open>main\<close>. An exception that nothing catches ends the run: \<open>raised\<close> holds it, and the
  interpreter then exits with status 1. When \<open>main\<close> returns, the script ends and the
  status is 0.
\<close>

definition main :: "script \<Rightarrow> env \<Rightarrow> fs_state \<Rightarrow> run_result" where
  "main sc ev fs =
     (if \<not> out_dir fs \<and> \<not> makedirs_ok ev then \<lparr>final = fs, printed = [], raised = Some OSError\<rparr>
      else
        let fs1 = fs\<lparr>out_dir := True\<rparr> in
        case results fs1 of
          None \<Rightarrow> \<lparr>final = fs1, printed = [MsgDirNotFound], raised = None\<rparr>
        | Some w \<Rightarrow>
            (case scan_dirs (parser_of sc) (load_json_data (cache_file fs1))
                    (init_state (load_json_data (log_file fs1))) w of
               Inl (e, ms) \<Rightarrow> \<lparr>final = fs1, printed = ms, raised = Some e\<rparr>
             | Inr st \<Rightarrow>
                 (let st' = st\<lparr>out := out st @
                                [MsgScanComplete (new_files_count st) (skipped_files_count st)]\<rparr>
                  in if new_files_count st = 0
                     then \<lparr>final = fs1, printed = out st' @ [MsgUpToDate], raised = None\<rparr>
                     else synth sc ev fs1 st')))"

definition exit_status :: "run_result \<Rightarrow> nat" where
  "exit_status r = (case raised r of None \<Rightarrow> 0 | Some e \<Rightarrow> 1)"

section \<open>Notions used in the statements\<close>



text \<open>
  The files the scan visits, in order, each with the group key, the experiment and the
  path parts of its directory: the files of the directories that have a group key and
  an experiment.
\<close>

type_synonym scanned_file = "string \<times> string \<times> string list \<times> file_entry"

definition dir_files :: "string list \<times> file_entry list \<Rightarrow> scanned_file list" where
  "dir_files d =
     (case d of (path_parts, files) \<Rightarrow>
        if files = [] then []
        else case derive_keys path_parts of (group_key, experiment) \<Rightarrow>
          if truthy group_key \<and> truthy experiment
          then map (\<lambda>f. (the group_key, the experiment, path_parts, f)) (sort_key fname files)
          else [])"

definition scanned :: "walk \<Rightarrow> scanned_file list" where
  "scanned w = concat (map dir_files w)"

definition filepath_of :: "scanned_file \<Rightarrow> path" where
  "filepath_of x = (case x of (g, e, path_parts, f) \<Rightarrow> path_join (root_of path_parts) (fname f))"

definition group_of :: "scanned_file \<Rightarrow> string" where
  "group_of x = fst x"

definition experiment_name :: "scanned_file \<Rightarrow> string" where
  "experiment_name x = fst (snd x)"

definition entry_of :: "scanned_file \<Rightarrow> file_entry" where
  "entry_of x = snd (snd (snd x))"

text \<open>The inner loop over the files of \<open>scanned\<close>.\<close>

fun scan_list :: "parser \<Rightarrow> dataset \<Rightarrow> scan_state \<Rightarrow> scanned_file list \<Rightarrow> (error \<times> msg list) + scan_state" where
  "scan_list parse cached_data st [] = Inr st"
| "scan_list parse cached_data st (x # xs) =
     (case scan_file parse cached_data (group_of x) (experiment_name x) (fst (snd (snd x))) st (entry_of x) of
        Inl e \<Rightarrow> Inl e
      | Inr st' \<Rightarrow> scan_list parse cached_data st' xs)"

text \<open>\<^verbatim>\<open>d[group_key][filepath]\<close>, where it exists.\<close>

definition lookup :: "dataset \<Rightarrow> string \<Rightarrow> path \<Rightarrow> metrics option" where
  "lookup d group_key filepath =
     (case map_of d group_key of None \<Rightarrow> None | Some g \<Rightarrow> map_of g filepath)"

text \<open>
  A file is a cache hit for a log when its modification time can be read and the log
  holds that time for its path.
\<close>

definition is_hit :: "(path \<times> mtime) list \<Rightarrow> scanned_file \<Rightarrow> bool" where
  "is_hit lg x = (fmtime (entry_of x) \<noteq> None \<and> map_of lg (filepath_of x) = fmtime (entry_of x))"

text \<open>One pass of the inner loop, for a file of \<open>scanned\<close>.\<close>

definition scan_step :: "parser \<Rightarrow> dataset \<Rightarrow> scan_state \<Rightarrow> scanned_file \<Rightarrow> (error \<times> msg list) + scan_state" where
  "scan_step parse cached_data st x =
     scan_file parse cached_data (group_of x) (experiment_name x) (fst (snd (snd x))) st (entry_of x)"

text \<open>
  The record a scanned file is to contribute, in the words of the specification: on a
  cache hit the record the data cache holds for its path under its group key, if any;
  otherwise the freshly extracted record with its experiment attached, if the file can
  be read.
\<close>

definition expected_record :: "parser \<Rightarrow> dataset \<Rightarrow> (path \<times> mtime) list \<Rightarrow> scanned_file \<Rightarrow> metrics option" where
  "expected_record parse cached_data lg x =
     (if is_hit lg x then lookup cached_data (group_of x) (filepath_of x)
      else case parse (filepath_of x) (ftext (entry_of x)) of
             Inr (Some m) \<Rightarrow>
               if m \<noteq> [] then Some (AList.update ''Experiment'' (PStr (experiment_name x)) m) else None
           | _ \<Rightarrow> None)"

text \<open>The two messages that report a fatal condition.\<close>

definition is_error :: "msg \<Rightarrow> bool" where
  "is_error m = (m = MsgDirNotFound \<or> m = MsgWriteError)"

definition clean :: "msg list \<Rightarrow> bool" where
  "clean ms = (\<forall>m \<in> set ms. \<not> is_error m)"

text \<open>A file system with nothing in it, and an environment in which every call succeeds.\<close>

definition empty_fs :: fs_state where
  "empty_fs = \<lparr>out_dir = False, results = None, log_file = Missing, cache_file = Missing,
               report = Missing, tmp_report = Missing\<rparr>"

definition ok_env :: env where
  "ok_env = \<lparr>makedirs_ok = True, sheet_fails = (\<lambda>g. False), save_book = Written,
             move_book = Written, save_cache = Written, save_log = Written\<rparr>"

text \<open>
  A small result tree: one log file under \<^verbatim>\<open>pref_l1/berti/exp1\<close>, and a file system that
  holds it and nothing else.
\<close>

definition example_file :: file_entry where
  "example_file = \<lparr>fname = ''a.log'', fmtime = Some 100, ftext = Some ''CPU 0 cumulative IPC: 0.5''\<rparr>"

definition example_walk :: walk where
  "example_walk =
     [([''.''], []), ([''pref_l1''], []), ([''pref_l1'', ''berti''], []),
      ([''pref_l1'', ''berti'', ''exp1''], [example_file])]"

definition example_fs :: fs_state where
  "example_fs = empty_fs\<lparr>results := Some example_walk\<rparr>"

text \<open>
  The same tree after an earlier run: the log holds the file with its modification
  time, and the data cache holds its record. And the tree with a second file that has
  changed and cannot be read.
\<close>

definition example_path :: path where
  "example_path = ''../results/pref_l1/berti/exp1/a.log''"

definition example_record :: metrics where
  "example_record =
     [(''Trace File'', PStr ''a.log''), (''IPC'', PFloat (Fin 0.5)), (''Experiment'', PStr ''exp1'')]"

definition example_log :: "(path \<times> mtime) list" where
  "example_log = [(example_path, 100)]"

definition example_cache :: dataset where
  "example_cache = [(''pref_l1_berti'', [(example_path, example_record)])]"

definition unreadable_file :: file_entry where
  "unreadable_file = \<lparr>fname = ''b.log'', fmtime = Some 200, ftext = None\<rparr>"

definition unreadable_walk :: walk where
  "unreadable_walk = [([''pref_l1'', ''berti'', ''exp1''], [unreadable_file, example_file])]"




section \<open>Properties of the extractor\<close>

lemmas extract_eval =
  parse_champsim_file_def parse_champsim_file_new_def parse_with_def rules_old_def rules_new_def
  level_rules_def level_fields_def fields_old_def fields_new_def init_metrics_def ipc_rule_def
  float_stat_pat_def total_stats_pat_def apply_rule_def conv_float_def conv_int_def
  conv_accuracy_def py_float_def py_int_def py_decimal_def nat_of_digits_def digit_val_def
  is_digit_def is_space_def basename_def

text \<open>
  Claim C4 (the code departs from it). The claim: when a rule's pattern matches but the
  captured numeric text is malformed, the extractor does not raise and leaves the field
  absent. The code: the text \<^verbatim>\<open>1.2.3\<close> satisfies \<^verbatim>\<open>[\d.]+\<close>, \<^verbatim>\<open>float\<close> raises
  \<^verbatim>\<open>ValueError\<close> on it, and only \<^verbatim>\<open>IOError\<close> is caught, so the exception leaves
  \<open>parse_champsim_file\<close> in both scripts. The accuracy rules of the newer script do
  catch it, and then store the captured text instead of leaving the field absent.
\<close>

theorem C4_malformed_float_raises:
  "parse_champsim_file p (Some ''CPU 0 cumulative IPC: 1.2.3'') = Inl ValueError \<and>
   parse_champsim_file_new p (Some ''CPU 0 cumulative IPC: 1.2.3'') = Inl ValueError \<and>
   (\<exists>m. parse_champsim_file_new p (Some ''L1D USEFUL LOAD PREFETCHES: 7 ACCURACY: 1.2.3'') = Inr (Some m) \<and>
        map_of m ''L1D Prefetch Accuracy'' = Some (PStr ''1.2.3''))"
  by (simp add: extract_eval)
























section \<open>Properties of the natural order\<close>










    
lemmas sort_eval = sorted_natural_def natural_sort_key_def isdigit_str_def is_digit_def
  nat_of_digits_def digit_val_def to_lower_def less_eq_key_part_def less_key_part_def



section \<open>Properties of the run\<close>

text \<open>The nested loops of the scan visit the files of \<open>scanned\<close>, in order.\<close>

lemma scan_list_append:
  "scan_list parse cd st (xs @ ys) =
     (case scan_list parse cd st xs of Inl e \<Rightarrow> Inl e | Inr st' \<Rightarrow> scan_list parse cd st' ys)"
  by (induction xs arbitrary: st) (auto split: sum.splits)

lemma scan_files_flat:
  "scan_files parse cd g e parts st fs = scan_list parse cd st (map (\<lambda>f. (g, e, parts, f)) fs)"
  by (induction fs arbitrary: st)
     (auto simp: group_of_def experiment_name_def entry_of_def split: sum.splits)

lemma scan_dir_flat: "scan_dir parse cd st d = scan_list parse cd st (dir_files d)"
  by (auto simp: scan_dir_def dir_files_def scan_files_flat split: prod.splits)

lemma scan_dirs_flat: "scan_dirs parse cd st w = scan_list parse cd st (scanned w)"
  by (induction w arbitrary: st)
     (auto simp: scanned_def scan_list_append scan_dir_flat split: sum.splits)


lemma scan_file_clean:
  assumes "clean (out st)"
  shows "case scan_file parse cd g e parts st f of Inl (x, ms) \<Rightarrow> clean ms | Inr st' \<Rightarrow> clean (out st')"
  using assms
  by (auto simp: scan_file_def Let_def clean_def is_error_def
      split: option.splits sum.splits if_splits)

lemma scan_list_clean:
  "clean (out st) \<Longrightarrow>
   (case scan_list parse cd st xs of Inl (x, ms) \<Rightarrow> clean ms | Inr st' \<Rightarrow> clean (out st'))"
proof (induction xs arbitrary: st)
  case Nil
  then show ?case by simp
next
  case (Cons x xs)
  from scan_file_clean [OF Cons.prems, of parse cd "group_of x" "experiment_name x" "fst (snd (snd x))" "entry_of x"]
  show ?case
    by (auto split: sum.splits dest: Cons.IH)
qed


lemma scan_dirs_clean_Inl:
  "scan_dirs parse cd (init_state lg) w = Inl (x, ms) \<Longrightarrow> clean ms"
  using scan_list_clean [of "init_state lg" parse cd "scanned w"]
  by (simp add: scan_dirs_flat init_state_def clean_def is_error_def)

lemma scan_dirs_clean_Inr:
  "scan_dirs parse cd (init_state lg) w = Inr st \<Longrightarrow> clean (out st)"
  using scan_list_clean [of "init_state lg" parse cd "scanned w"]
  by (simp add: scan_dirs_flat init_state_def clean_def is_error_def)

lemma write_groups_clean:
  "write_groups sc ev names d gs book ms = r \<Longrightarrow> clean ms \<Longrightarrow>
   (case r of Inl (x, ms') \<Rightarrow> clean ms' | Inr (b, ms') \<Rightarrow> clean ms')"
proof (induction gs arbitrary: book ms)
  case Nil
  then show ?case by auto
next
  case (Cons g gs)
  have 1: "clean (ms @ [MsgGroup g])"
    using Cons.prems by (simp add: clean_def is_error_def)
  have 2: "clean (ms @ [MsgGroup g, MsgSheetDone (sheet_name_of g)])"
    using Cons.prems by (simp add: clean_def is_error_def)
  show ?case
  proof (cases "map snd (case map_of d g of None \<Rightarrow> [] | Some x \<Rightarrow> x) = []")
    case True
    with Cons.prems have "write_groups sc ev names d gs book ms = r" by simp
    from Cons.IH [OF this Cons.prems(2)] show ?thesis .
  next
    case False
    show ?thesis
    proof (cases "sheet_fails ev g")
      case True
      with False Cons.prems(1) 1 show ?thesis by auto
    next
      case nf: False
      show ?thesis
      proof (cases "build_sheet sc g (map snd (case map_of d g of None \<Rightarrow> [] | Some x \<Rightarrow> x))")
        case (Inl e)
        with False nf Cons.prems(1) 1 show ?thesis by auto
      next
        case (Inr sh)
        with False nf Cons.prems(1)
        have "write_groups sc ev names d gs (create_sheet sc names (sheet_name_of g) sh book)
                (ms @ [MsgGroup g, MsgSheetDone (sheet_name_of g)]) = r"
          by simp
        from Cons.IH [OF this 2] show ?thesis .
      qed
    qed
  qed
qed

lemma open_book_clean:
  "open_book sc rep = Inr (book, names, ms0) \<Longrightarrow> clean ms0"
  by (auto simp: open_book_def clean_def is_error_def split: script.splits file_state.splits)

lemma clean_filter: "clean ms \<Longrightarrow> filter is_error ms = []"
  by (induction ms) (auto simp: clean_def)

lemma clean_append: "clean (xs @ ys) = (clean xs \<and> clean ys)"
  by (auto simp: clean_def)

lemma persist_book_Inl:
  assumes "persist_book sc ev book fs = Inl fs'"
  shows "cache_file fs' = cache_file fs" and "log_file fs' = log_file fs"
    and "out_dir fs' = out_dir fs" and "results fs' = results fs"
    and "(sc = CollectData \<and> save_book ev \<noteq> FailsPartial) \<or>
         (sc = CollectDataNew \<and> (save_book ev \<noteq> Written \<or> move_book ev \<noteq> FailsPartial)) \<Longrightarrow>
         report fs' = report fs"
    and "sc = CollectDataNew \<Longrightarrow> save_book ev \<noteq> Written \<Longrightarrow> report fs' = report fs"
  using assms
  by (auto simp: persist_book_def Let_def write_file_def
      split: script.splits write_outcome.splits if_splits)

lemma persist_book_Inr:
  assumes "persist_book sc ev book fs = Inr fs'"
  shows "cache_file fs' = cache_file fs" and "log_file fs' = log_file fs"
    and "out_dir fs' = out_dir fs" and "results fs' = results fs"
    and "report fs' = Holds book" and "save_book ev = Written"
    and "sc = CollectDataNew \<Longrightarrow> move_book ev = Written"
  using assms
  by (auto simp: persist_book_def Let_def write_file_def
      split: script.splits write_outcome.splits if_splits)

text \<open>The two ways in which the \<^verbatim>\<open>try\<close> block ends.\<close>

lemma synth_cases:
  assumes "clean (out st)"
  obtains
    (failed) ms fs' where "clean ms"
      and "synth sc ev fs st = \<lparr>final = fs', printed = ms @ [MsgWriteError], raised = None\<rparr>"
      and "cache_file fs' = cache_file fs" and "log_file fs' = log_file fs"
      and "out_dir fs' = out_dir fs" and "results fs' = results fs"
      and "(sc = CollectData \<and> save_book ev \<noteq> FailsPartial) \<or>
         (sc = CollectDataNew \<and> (save_book ev \<noteq> Written \<or> move_book ev \<noteq> FailsPartial)) \<Longrightarrow>
         report fs' = report fs"
  | (succeeded) book names ms0 book' ms fs' where
      "open_book sc (report fs) = Inr (book, names, ms0)"
      and "write_groups sc ev names (data_by_prefetcher st)
             (sort_key (\<lambda>k. k) (map fst (data_by_prefetcher st))) book
             (out st @ [MsgUpdating] @ ms0) = Inr (book', ms)"
      and "persist_book sc ev book' fs = Inr fs'"
      and "clean ms"
      and "synth sc ev fs st =
             \<lparr>final = fs'\<lparr>cache_file := write_file (save_cache ev) (clean_cache (data_by_prefetcher st)) (cache_file fs),
                           log_file := write_file (save_log ev) (processed_files_log st) (log_file fs)\<rparr>,
              printed = ms @ (if save_cache ev = Written then [] else [MsgSaveWarning DATA_CACHE_FILE]) @
                        (if save_log ev = Written then [] else [MsgSaveWarning PROCESSED_LOG_FILE]) @ [MsgSuccess],
              raised = None\<rparr>"
proof -
  have c0: "clean (out st @ [MsgUpdating])"
    using assms by (simp add: clean_def is_error_def)
  show thesis
  proof (cases "open_book sc (report fs)")
    case (Inl e)
    then have "synth sc ev fs st = \<lparr>final = fs, printed = (out st @ [MsgUpdating]) @ [MsgWriteError], raised = None\<rparr>"
      by (simp add: synth_def)
    with c0 show thesis by (intro failed [of "out st @ [MsgUpdating]" fs]) simp_all
  next
    case (Inr t)
    then obtain book names ms0 where ob: "open_book sc (report fs) = Inr (book, names, ms0)"
      by (cases t) auto
    have c1: "clean ((out st @ [MsgUpdating]) @ ms0)"
      using c0 open_book_clean [OF ob] by (simp only: clean_append simp_thms)
    let ?wg = "write_groups sc ev names (data_by_prefetcher st)
             (sort_key (\<lambda>k. k) (map fst (data_by_prefetcher st))) book
             ((out st @ [MsgUpdating]) @ ms0)"
    show thesis
    proof (cases ?wg)
      case (Inl t)
      then obtain e ms1 where wg: "?wg = Inl (e, ms1)" by (cases t) auto
      from write_groups_clean [OF wg c1] have "clean ms1" by simp
      moreover have "synth sc ev fs st = \<lparr>final = fs, printed = ms1 @ [MsgWriteError], raised = None\<rparr>"
        using ob wg by (simp add: synth_def)
      ultimately show thesis by (intro failed [of ms1 fs]) simp_all
    next
      case (Inr t)
      then obtain book' ms1 where wg: "?wg = Inr (book', ms1)" by (cases t) auto
      from write_groups_clean [OF wg c1] have c2: "clean ms1" by simp
      show thesis
      proof (cases "persist_book sc ev book' fs")
        case (Inl fs')
        have "synth sc ev fs st = \<lparr>final = fs', printed = ms1 @ [MsgWriteError], raised = None\<rparr>"
          using ob wg Inl by (simp add: synth_def)
        with c2 persist_book_Inl [OF Inl] show thesis
          by (intro failed [of ms1 fs']) simp_all
      next
        case (Inr fs')
        have "synth sc ev fs st =
             \<lparr>final = fs'\<lparr>cache_file := write_file (save_cache ev) (clean_cache (data_by_prefetcher st)) (cache_file fs),
                           log_file := write_file (save_log ev) (processed_files_log st) (log_file fs)\<rparr>,
              printed = ms1 @ (if save_cache ev = Written then [] else [MsgSaveWarning DATA_CACHE_FILE]) @
                        (if save_log ev = Written then [] else [MsgSaveWarning PROCESSED_LOG_FILE]) @ [MsgSuccess],
              raised = None\<rparr>"
          using ob wg Inr persist_book_Inr(1,2) [OF Inr]
          by (simp add: synth_def save_json_data_def Let_def)
        with ob wg Inr c2 show thesis
          by (intro succeeded [of book names ms0 book' ms1 fs']) simp_all
      qed
    qed
  qed
qed

lemma synth_error:
  assumes "clean (out st)" and "MsgWriteError \<in> set (printed (synth sc ev fs st))"
  shows "filter is_error (printed (synth sc ev fs st)) = [MsgWriteError]"
    and "last (printed (synth sc ev fs st)) = MsgWriteError"
    and "cache_file (final (synth sc ev fs st)) = cache_file fs"
    and "log_file (final (synth sc ev fs st)) = log_file fs"
    and "(sc = CollectData \<and> save_book ev \<noteq> FailsPartial) \<or>
         (sc = CollectDataNew \<and> (save_book ev \<noteq> Written \<or> move_book ev \<noteq> FailsPartial)) \<Longrightarrow>
         report (final (synth sc ev fs st)) = report fs"
proof -
  have "filter is_error (printed (synth sc ev fs st)) = [MsgWriteError] \<and>
        last (printed (synth sc ev fs st)) = MsgWriteError \<and>
        cache_file (final (synth sc ev fs st)) = cache_file fs \<and>
        log_file (final (synth sc ev fs st)) = log_file fs \<and>
        ((sc = CollectData \<and> save_book ev \<noteq> FailsPartial) \<or>
         (sc = CollectDataNew \<and> (save_book ev \<noteq> Written \<or> move_book ev \<noteq> FailsPartial)) \<longrightarrow>
         report (final (synth sc ev fs st)) = report fs)"
  proof (rule synth_cases [OF assms(1), of sc ev fs], goal_cases)
    case (1 ms fs')
    then show ?case by (simp add: clean_filter is_error_def)
  next
    case (2 book names ms0 book' ms fs')
    with assms(2) have False
      by (auto simp: clean_def is_error_def split: if_splits)
    then show ?case ..
  qed
  then show "filter is_error (printed (synth sc ev fs st)) = [MsgWriteError]"
    and "last (printed (synth sc ev fs st)) = MsgWriteError"
    and "cache_file (final (synth sc ev fs st)) = cache_file fs"
    and "log_file (final (synth sc ev fs st)) = log_file fs"
    and "(sc = CollectData \<and> save_book ev \<noteq> FailsPartial) \<or>
         (sc = CollectDataNew \<and> (save_book ev \<noteq> Written \<or> move_book ev \<noteq> FailsPartial)) \<Longrightarrow>
         report (final (synth sc ev fs st)) = report fs"
    by blast+
qed

lemma synth_frame:
  "out_dir (final (synth sc ev fs st)) = out_dir fs"
  "results (final (synth sc ev fs st)) = results fs"
  "raised (synth sc ev fs st) = None"
  by (auto simp: synth_def persist_book_def save_json_data_def Let_def
      split: sum.splits prod.splits script.splits write_outcome.splits)

text \<open>The ways in which a run ends.\<close>

lemma main_cases:
  obtains
    (makedirs_raised) "\<not> out_dir fs" and "\<not> makedirs_ok ev"
      and "main sc ev fs = \<lparr>final = fs, printed = [], raised = Some OSError\<rparr>"
  | (no_root) "out_dir fs \<or> makedirs_ok ev" and "results fs = None"
      and "main sc ev fs = \<lparr>final = fs\<lparr>out_dir := True\<rparr>, printed = [MsgDirNotFound], raised = None\<rparr>"
  | (scan_raised) w e ms where "out_dir fs \<or> makedirs_ok ev" and "results fs = Some w"
      and "scan_dirs (parser_of sc) (load_json_data (cache_file fs))
             (init_state (load_json_data (log_file fs))) w = Inl (e, ms)"
      and "clean ms"
      and "main sc ev fs = \<lparr>final = fs\<lparr>out_dir := True\<rparr>, printed = ms, raised = Some e\<rparr>"
  | (up_to_date) w st where "out_dir fs \<or> makedirs_ok ev" and "results fs = Some w"
      and "scan_dirs (parser_of sc) (load_json_data (cache_file fs))
             (init_state (load_json_data (log_file fs))) w = Inr st"
      and "new_files_count st = 0" and "clean (out st)"
      and "main sc ev fs =
             \<lparr>final = fs\<lparr>out_dir := True\<rparr>,
              printed = out st @ [MsgScanComplete 0 (skipped_files_count st), MsgUpToDate],
              raised = None\<rparr>"
  | (synthesis) w st where "out_dir fs \<or> makedirs_ok ev" and "results fs = Some w"
      and "scan_dirs (parser_of sc) (load_json_data (cache_file fs))
             (init_state (load_json_data (log_file fs))) w = Inr st"
      and "new_files_count st \<noteq> 0" and "clean (out st)"
      and "main sc ev fs =
             synth sc ev (fs\<lparr>out_dir := True\<rparr>)
               (st\<lparr>out := out st @ [MsgScanComplete (new_files_count st) (skipped_files_count st)]\<rparr>)"
proof (cases "\<not> out_dir fs \<and> \<not> makedirs_ok ev")
  case True
  then show thesis by (intro makedirs_raised) (simp_all add: main_def)
next
  case ok: False
  show thesis
  proof (cases "results fs")
    case None
    with ok show thesis by (intro no_root) (auto simp: main_def)
  next
    case (Some w)
    let ?scan = "scan_dirs (parser_of sc) (load_json_data (cache_file fs))
             (init_state (load_json_data (log_file fs))) w"
    show thesis
    proof (cases ?scan)
      case (Inl t)
      then obtain e ms where s: "?scan = Inl (e, ms)" by (cases t) auto
      from scan_dirs_clean_Inl [OF s] have "clean ms" .
      with ok Some s show thesis by (intro scan_raised [of w e ms]) (auto simp: main_def)
    next
      case (Inr st)
      from scan_dirs_clean_Inr [OF Inr] have c: "clean (out st)" .
      show thesis
      proof (cases "new_files_count st = 0")
        case True
        with ok Some Inr c show thesis
          by (intro up_to_date [of w st]) (auto simp: main_def Let_def)
      next
        case False
        with ok Some Inr c show thesis
          by (intro synthesis [of w st]) (auto simp: main_def Let_def)
      qed
    qed
  qed
qed

lemmas run_eval =
  main_def synth_def scan_dir_def scan_file_def derive_keys_def truthy_def root_of_def
  path_join_def RESULTS_DIR_def init_state_def load_json_data_def store_def parser_of_def
  open_book_def persist_book_def write_file_def save_json_data_def clean_cache_def
  build_sheet_def experiments_def experiment_of_def experiment_rows_def columns_def
  cell_value_def create_sheet_def sheet_name_of_def custom_sheets_def headers_new_def
  example_fs_def example_walk_def example_file_def empty_fs_def ok_env_def exit_status_def
  Let_def

lemma parse_example:
  "parse_champsim_file p (Some ''CPU 0 cumulative IPC: 0.5'') =
     Inr (Some (AList.update ''IPC'' (PFloat (Fin 0.5)) (init_metrics fields_old p)))"
  "parse_champsim_file_new p (Some ''CPU 0 cumulative IPC: 0.5'') =
     Inr (Some (AList.update ''IPC'' (PFloat (Fin 0.5)) (init_metrics fields_new p)))"
  by (simp_all add: extract_eval)

text \<open>
  Claim C10. \<open>main\<close> creates the output directory before it looks at the result
  tree: whenever \<^verbatim>\<open>os.makedirs\<close> does not raise, the directory exists after the run,
  whatever happens later; the run on a missing root returns with the file system
  changed in exactly this one way; and when \<^verbatim>\<open>os.makedirs\<close> does raise, the run ends
  there.
\<close>

theorem C10_output_dir_created_first:
  "(out_dir fs \<or> makedirs_ok ev \<longrightarrow> out_dir (final (main sc ev fs))) \<and>
   (results fs = None \<and> \<not> out_dir fs \<and> makedirs_ok ev \<longrightarrow>
      main sc ev fs = \<lparr>final = fs\<lparr>out_dir := True\<rparr>, printed = [MsgDirNotFound], raised = None\<rparr> \<and>
      final (main sc ev fs) \<noteq> fs) \<and>
   (\<not> out_dir fs \<and> \<not> makedirs_ok ev \<longrightarrow>
      main sc ev fs = \<lparr>final = fs, printed = [], raised = Some OSError\<rparr>)"
proof (intro conjI impI)
  assume "out_dir fs \<or> makedirs_ok ev"
  then show "out_dir (final (main sc ev fs))"
    by (cases rule: main_cases [of fs ev sc]) (auto simp: synth_frame)
next
  assume a: "results fs = None \<and> \<not> out_dir fs \<and> makedirs_ok ev"
  then show m: "main sc ev fs = \<lparr>final = fs\<lparr>out_dir := True\<rparr>, printed = [MsgDirNotFound], raised = None\<rparr>"
    by (simp add: main_def)
  have "out_dir (final (main sc ev fs))" by (simp add: m)
  with a show "final (main sc ev fs) \<noteq> fs" by auto
next
  assume "\<not> out_dir fs \<and> \<not> makedirs_ok ev"
  then show "main sc ev fs = \<lparr>final = fs, printed = [], raised = Some OSError\<rparr>"
    by (simp add: main_def)
qed

text \<open>
  C10 on the empty file system: with a working \<^verbatim>\<open>os.makedirs\<close> the run creates the
  directory and reports the missing root; with a failing one it ends with \<^verbatim>\<open>OSError\<close>.
\<close>

theorem C10_output_dir_created_first_witness:
  "results empty_fs = None \<and> \<not> out_dir empty_fs \<and> makedirs_ok ok_env \<and>
   out_dir (final (main CollectData ok_env empty_fs)) \<and>
   printed (main CollectData ok_env empty_fs) = [MsgDirNotFound] \<and>
   final (main CollectData ok_env empty_fs) \<noteq> empty_fs \<and>
   \<not> makedirs_ok (ok_env\<lparr>makedirs_ok := False\<rparr>) \<and>
   raised (main CollectData (ok_env\<lparr>makedirs_ok := False\<rparr>) empty_fs) = Some OSError"
proof -
  have h: "results empty_fs = None" "\<not> out_dir empty_fs" "makedirs_ok ok_env"
    "\<not> makedirs_ok (ok_env\<lparr>makedirs_ok := False\<rparr>)"
    by (simp_all add: empty_fs_def ok_env_def)
  note a = C10_output_dir_created_first [of empty_fs ok_env CollectData]
  note b = C10_output_dir_created_first [of empty_fs "ok_env\<lparr>makedirs_ok := False\<rparr>" CollectData]
  from a h have 1: "out_dir (final (main CollectData ok_env empty_fs))" by blast
  from a h have 2: "main CollectData ok_env empty_fs =
      \<lparr>final = empty_fs\<lparr>out_dir := True\<rparr>, printed = [MsgDirNotFound], raised = None\<rparr>"
    by blast
  from a h have 3: "final (main CollectData ok_env empty_fs) \<noteq> empty_fs" by blast
  from b h have 4: "main CollectData (ok_env\<lparr>makedirs_ok := False\<rparr>) empty_fs =
      \<lparr>final = empty_fs, printed = [], raised = Some OSError\<rparr>"
    by blast
  from h 1 3 show ?thesis by (simp add: 2 4)
qed

section \<open>Properties of the scan\<close>

lemma scan_list_step:
  "scan_list parse cd st (x # xs) =
     (case scan_step parse cd st x of Inl e \<Rightarrow> Inl e | Inr st' \<Rightarrow> scan_list parse cd st' xs)"
  by (simp add: scan_step_def)

lemma lookup_store:
  "lookup (store g p r d) g' p' = (if g' = g \<and> p' = p then Some r else lookup d g' p')"
  by (auto simp: lookup_def store_def update_conv' split: option.splits)

text \<open>What one pass does, case by case.\<close>

lemma scan_step_hit:
  assumes "is_hit (processed_files_log st) x"
  shows "scan_step parse cd st x =
     Inr (st\<lparr>data_by_prefetcher :=
               (case lookup cd (group_of x) (filepath_of x) of
                  None \<Rightarrow> data_by_prefetcher st
                | Some r \<Rightarrow> store (group_of x) (filepath_of x) r (data_by_prefetcher st)),
             skipped_files_count := skipped_files_count st + 1\<rparr>)"
  using assms
  by (cases x)
     (auto simp: scan_step_def scan_file_def is_hit_def filepath_of_def group_of_def
        entry_of_def experiment_name_def lookup_def Let_def split: option.splits)

lemma scan_step_miss:
  assumes "\<not> is_hit (processed_files_log st) x" and "scan_step parse cd st x = Inr st'"
  obtains (unreadable) t where "fmtime (entry_of x) = Some t"
      and "parse (filepath_of x) (ftext (entry_of x)) = Inr None"
      and "processed_files_log st' = processed_files_log st"
      and "data_by_prefetcher st' = data_by_prefetcher st"
      and "new_files_count st' = new_files_count st + 1"
      and "skipped_files_count st' = skipped_files_count st"
  | (empty) t where "fmtime (entry_of x) = Some t"
      and "parse (filepath_of x) (ftext (entry_of x)) = Inr (Some [])"
      and "processed_files_log st' = processed_files_log st"
      and "data_by_prefetcher st' = data_by_prefetcher st"
      and "new_files_count st' = new_files_count st + 1"
      and "skipped_files_count st' = skipped_files_count st"
  | (parsed) t m where "fmtime (entry_of x) = Some t"
      and "parse (filepath_of x) (ftext (entry_of x)) = Inr (Some m)" and "m \<noteq> []"
      and "processed_files_log st' = AList.update (filepath_of x) t (processed_files_log st)"
      and "data_by_prefetcher st' =
             store (group_of x) (filepath_of x)
               (AList.update ''Experiment'' (PStr (experiment_name x)) m) (data_by_prefetcher st)"
      and "new_files_count st' = new_files_count st + 1"
      and "skipped_files_count st' = skipped_files_count st"
proof -
  obtain g e parts f where x: "x = (g, e, parts, f)" by (cases x) auto
  from assms(2) obtain t where t: "fmtime f = Some t"
    by (auto simp: x scan_step_def scan_file_def entry_of_def Let_def split: option.splits)
  have nh: "map_of (processed_files_log st) (path_join (root_of parts) (fname f)) \<noteq> Some t"
    using assms(1) t by (simp add: x is_hit_def entry_of_def filepath_of_def)
  show thesis
  proof (cases "parse (path_join (root_of parts) (fname f)) (ftext f)")
    case (Inl err)
    with assms(2) t nh show thesis
      by (simp add: x scan_step_def scan_file_def entry_of_def Let_def)
  next
    case (Inr r)
    show thesis
    proof (cases r)
      case None
      with Inr assms(2) t nh show thesis
        by (intro unreadable [of t])
           (auto simp: x scan_step_def scan_file_def entry_of_def filepath_of_def Let_def)
    next
      case (Some m)
      show thesis
      proof (cases "m = []")
        case True
        with Some Inr assms(2) t nh show thesis
          by (intro empty [of t])
             (auto simp: x scan_step_def scan_file_def entry_of_def filepath_of_def Let_def)
      next
        case False
        with Some Inr assms(2) t nh show thesis
          by (intro parsed [of t m])
             (auto simp: x scan_step_def scan_file_def entry_of_def filepath_of_def
                group_of_def experiment_name_def Let_def)
      qed
    qed
  qed
qed


lemma scan_all_hits:
  "\<forall>x \<in> set xs. is_hit (processed_files_log st) x \<Longrightarrow>
   \<exists>st'. scan_list parse cd st xs = Inr st' \<and>
     processed_files_log st' = processed_files_log st \<and>
     new_files_count st' = new_files_count st \<and>
     skipped_files_count st' = skipped_files_count st + length xs \<and>
     out st' = out st"
proof (induction xs arbitrary: st)
  case Nil
  then show ?case by simp
next
  case (Cons x xs)
  let ?st1 = "st\<lparr>data_by_prefetcher :=
               (case lookup cd (group_of x) (filepath_of x) of
                  None \<Rightarrow> data_by_prefetcher st
                | Some r \<Rightarrow> store (group_of x) (filepath_of x) r (data_by_prefetcher st)),
             skipped_files_count := skipped_files_count st + 1\<rparr>"
  from Cons.prems have h: "is_hit (processed_files_log st) x" by simp
  have s: "scan_step parse cd st x = Inr ?st1" by (rule scan_step_hit [OF h])
  have "\<forall>y \<in> set xs. is_hit (processed_files_log ?st1) y" using Cons.prems by simp
  from Cons.IH [OF this] obtain st' where "scan_list parse cd ?st1 xs = Inr st'"
    and "processed_files_log st' = processed_files_log ?st1"
    and "new_files_count st' = new_files_count ?st1"
    and "skipped_files_count st' = skipped_files_count ?st1 + length xs"
    and "out st' = out ?st1"
    by blast
  then show ?case by (simp add: scan_list_step s del: scan_list.simps)
qed

lemma scan_step_new:
  assumes "scan_step parse cd st x = Inr st'"
  shows "new_files_count st' = (if is_hit (processed_files_log st) x then new_files_count st
                                else new_files_count st + 1)"
proof (cases "is_hit (processed_files_log st) x")
  case True
  with assms scan_step_hit [OF True, of parse cd] show ?thesis by auto
next
  case False
  from False assms show ?thesis by (cases rule: scan_step_miss) (simp_all add: False)
qed

lemma scan_step_log:
  assumes "scan_step parse cd st x = Inr st'" and "q \<noteq> filepath_of x"
  shows "map_of (processed_files_log st') q = map_of (processed_files_log st) q"
proof (cases "is_hit (processed_files_log st) x")
  case True
  with assms scan_step_hit [OF True, of parse cd] show ?thesis by auto
next
  case False
  from False assms(1) show ?thesis
    by (cases rule: scan_step_miss) (simp_all add: update_conv' assms(2))
qed

lemma scan_step_data:
  assumes "scan_step parse cd st x = Inr st'" and "q \<noteq> filepath_of x"
  shows "lookup (data_by_prefetcher st') g q = lookup (data_by_prefetcher st) g q"
proof (cases "is_hit (processed_files_log st) x")
  case True
  with assms scan_step_hit [OF True, of parse cd] show ?thesis
    by (auto simp: lookup_store split: option.splits)
next
  case False
  from False assms(1) show ?thesis
    by (cases rule: scan_step_miss) (simp_all add: lookup_store assms(2))
qed

lemma scan_list_mono:
  "scan_list parse cd st xs = Inr st' \<Longrightarrow> new_files_count st \<le> new_files_count st'"
proof (induction xs arbitrary: st)
  case Nil
  then show ?case by simp
next
  case (Cons x xs)
  from Cons.prems obtain st1 where s: "scan_step parse cd st x = Inr st1"
    and r: "scan_list parse cd st1 xs = Inr st'"
    by (auto simp: scan_list_step simp del: scan_list.simps split: sum.splits)
  from scan_step_new [OF s] Cons.IH [OF r] show ?case by (auto split: if_splits)
qed

lemma scan_list_log:
  "scan_list parse cd st xs = Inr st' \<Longrightarrow> q \<notin> filepath_of ` set xs \<Longrightarrow>
   map_of (processed_files_log st') q = map_of (processed_files_log st) q"
proof (induction xs arbitrary: st)
  case Nil
  then show ?case by simp
next
  case (Cons x xs)
  from Cons.prems(1) obtain st1 where s: "scan_step parse cd st x = Inr st1"
    and r: "scan_list parse cd st1 xs = Inr st'"
    by (auto simp: scan_list_step simp del: scan_list.simps split: sum.splits)
  from Cons.prems(2) have "q \<noteq> filepath_of x" and "q \<notin> filepath_of ` set xs" by auto
  with scan_step_log [OF s] Cons.IH [OF r] show ?case by simp
qed

lemma scan_list_data:
  "scan_list parse cd st xs = Inr st' \<Longrightarrow> q \<notin> filepath_of ` set xs \<Longrightarrow>
   lookup (data_by_prefetcher st') g q = lookup (data_by_prefetcher st) g q"
proof (induction xs arbitrary: st)
  case Nil
  then show ?case by simp
next
  case (Cons x xs)
  from Cons.prems(1) obtain st1 where s: "scan_step parse cd st x = Inr st1"
    and r: "scan_list parse cd st1 xs = Inr st'"
    by (auto simp: scan_list_step simp del: scan_list.simps split: sum.splits)
  from Cons.prems(2) have "q \<noteq> filepath_of x" and "q \<notin> filepath_of ` set xs" by auto
  with scan_step_data [OF s] Cons.IH [OF r] show ?case by simp
qed

lemma is_hit_cong:
  "map_of lg (filepath_of x) = map_of lg' (filepath_of x) \<Longrightarrow> is_hit lg x = is_hit lg' x"
  by (simp add: is_hit_def)

text \<open>A scan that counts no new file found every file in the log, and left the log alone.\<close>

lemma scan_noop:
  "scan_list parse cd st xs = Inr st' \<Longrightarrow> new_files_count st' = new_files_count st \<Longrightarrow>
   (\<forall>x \<in> set xs. is_hit (processed_files_log st) x) \<and>
   processed_files_log st' = processed_files_log st"
proof (induction xs arbitrary: st)
  case Nil
  then show ?case by simp
next
  case (Cons x xs)
  from Cons.prems(1) obtain st1 where s: "scan_step parse cd st x = Inr st1"
    and r: "scan_list parse cd st1 xs = Inr st'"
    by (auto simp: scan_list_step simp del: scan_list.simps split: sum.splits)
  from scan_step_new [OF s] scan_list_mono [OF r] Cons.prems(2)
  have h: "is_hit (processed_files_log st) x" and n: "new_files_count st' = new_files_count st1"
    by (auto split: if_splits)
  from s scan_step_hit [OF h, of parse cd]
  have l: "processed_files_log st1 = processed_files_log st" by auto
  from Cons.IH [OF r n] l h show ?case by simp
qed

text \<open>
  After a scan that returns, every file that could be read is in the log with its
  modification time, provided no two files share a path.
\<close>

lemma scan_log_complete:
  assumes "scan_list parse cd st xs = Inr st'"
    and "distinct (map filepath_of xs)"
    and "\<forall>x \<in> set xs. \<forall>r. parse (filepath_of x) (ftext (entry_of x)) = Inr r \<longrightarrow>
           r \<noteq> None \<and> r \<noteq> Some []"
  shows "\<forall>x \<in> set xs. is_hit (processed_files_log st') x"
  using assms
proof (induction xs arbitrary: st)
  case Nil
  then show ?case by simp
next
  case (Cons x xs)
  from Cons.prems(1) obtain st1 where s: "scan_step parse cd st x = Inr st1"
    and r: "scan_list parse cd st1 xs = Inr st'"
    by (auto simp: scan_list_step simp del: scan_list.simps split: sum.splits)
  have good: "\<forall>r. parse (filepath_of x) (ftext (entry_of x)) = Inr r \<longrightarrow> r \<noteq> None \<and> r \<noteq> Some []"
    using Cons.prems(3) by simp
  have h1: "is_hit (processed_files_log st1) x"
  proof (cases "is_hit (processed_files_log st) x")
    case True
    with s scan_step_hit [OF True, of parse cd] show ?thesis by auto
  next
    case False
    from False s show ?thesis
    proof (cases rule: scan_step_miss)
      case (unreadable t)
      with good show ?thesis by blast
    next
      case (empty t)
      with good show ?thesis by blast
    next
      case (parsed t m)
      then show ?thesis by (simp add: is_hit_def update_conv')
    qed
  qed
  from Cons.prems(2) have nx: "filepath_of x \<notin> filepath_of ` set xs" and d: "distinct (map filepath_of xs)"
    by auto
  from scan_list_log [OF r nx] h1 have "is_hit (processed_files_log st') x"
    by (simp add: is_hit_def)
  moreover from Cons.IH [OF r d] Cons.prems(3) have "\<forall>y \<in> set xs. is_hit (processed_files_log st') y"
    by simp
  ultimately show ?case by simp
qed

lemma update_not_Nil: "AList.update k v m \<noteq> []"
  by (cases m) auto

lemma assign_groups_not_Nil: "assign_groups zs m = Inr m' \<Longrightarrow> m \<noteq> [] \<Longrightarrow> m' \<noteq> []"
proof (induction zs arbitrary: m)
  case Nil
  then show ?case by simp
next
  case (Cons z zs)
  obtain key conv g where z: "z = ((key, conv), g)" by (cases z) auto
  from Cons.prems(1) z obtain v where "assign_groups zs (AList.update key v m) = Inr m'"
    by (auto split: sum.splits)
  from Cons.IH [OF this update_not_Nil] show ?case .
qed

lemma run_rules_not_Nil: "run_rules content rs m = Inr m' \<Longrightarrow> m \<noteq> [] \<Longrightarrow> m' \<noteq> []"
proof (induction rs arbitrary: m)
  case Nil
  then show ?case by simp
next
  case (Cons r rs)
  from Cons.prems(1) obtain m1 where a: "apply_rule content r m = Inr m1"
    and b: "run_rules content rs m1 = Inr m'"
    by (auto split: sum.splits)
  from a Cons.prems(2) have "m1 \<noteq> []"
    by (auto simp: apply_rule_def split: option.splits dest: assign_groups_not_Nil)
  from Cons.IH [OF b this] show ?case .
qed

text \<open>The extractor of either script returns a record with at least one key when the file can be read.\<close>

lemma parser_of_readable:
  assumes "parser_of sc p (Some content) = Inr r"
  shows "r \<noteq> None \<and> r \<noteq> Some []"
proof -
  obtain flds rules where pw: "parser_of sc = parse_with flds rules"
    by (cases sc) (auto simp: parser_of_def parse_champsim_file_def parse_champsim_file_new_def)
  from assms obtain m where "run_rules content rules (init_metrics flds p) = Inr m" and "r = Some m"
    by (auto simp: pw parse_with_def split: sum.splits)
  moreover have "init_metrics flds p \<noteq> []" by (simp add: init_metrics_def)
  ultimately show ?thesis using run_rules_not_Nil by blast
qed


lemma fs_out_dir_True: "out_dir fs \<Longrightarrow> fs\<lparr>out_dir := True\<rparr> = fs"
  by (cases fs) simp

text \<open>A run in which the log holds every file of the tree is a no-op.\<close>

lemma main_all_hits:
  assumes "out_dir fs" and "results fs = Some w"
    and "\<forall>x \<in> set (scanned w). is_hit (load_json_data (log_file fs)) x"
  shows "main sc ev fs =
     \<lparr>final = fs, printed = [MsgStartScan, MsgScanComplete 0 (length (scanned w)), MsgUpToDate],
      raised = None\<rparr>"
proof -
  let ?ini = "init_state (load_json_data (log_file fs))"
  have "\<forall>x \<in> set (scanned w). is_hit (processed_files_log ?ini) x"
    using assms(3) by (simp add: init_state_def)
  from scan_all_hits [OF this, of "parser_of sc" "load_json_data (cache_file fs)"]
  obtain st where s: "scan_list (parser_of sc) (load_json_data (cache_file fs)) ?ini (scanned w) = Inr st"
    and n: "new_files_count st = 0" and k: "skipped_files_count st = length (scanned w)"
    and o: "out st = [MsgStartScan]"
    by (auto simp: init_state_def)
  show ?thesis
    using assms(1,2) s n k o
    by (simp add: main_def scan_dirs_flat fs_out_dir_True Let_def)
qed

lemma scanned_example:
  "scanned example_walk = [(''pref_l1_berti'', ''exp1'', [''pref_l1'', ''berti'', ''exp1''], example_file)]"
  by (simp add: scanned_def dir_files_def example_walk_def derive_keys_def truthy_def)

lemma run1_example:
  "raised (main CollectData ok_env example_fs) = None"
  "printed (main CollectData ok_env example_fs) =
     [MsgStartScan, MsgProcessingDir ''pref_l1/berti/exp1'', MsgScanComplete 1 0, MsgUpdating,
      MsgGroup ''pref_l1_berti'', MsgSheetDone ''raw_pref_l1_berti'', MsgSuccess]"
  by (simp_all add: run_eval parse_example init_metrics_def fields_old_def sort_eval)

text \<open>
  Claim C1. Take a run over a result tree in which every file can be read and no two
  files share a path, and let it end without an exception, without the error message of
  the \<^verbatim>\<open>try\<close> block and without a warning for the log of processed files. Then a second
  run of the script on the file system the first run left, in any environment, counts
  zero new files, prints that the output is up to date and returns with the file system
  unchanged: report, log and data cache are what the first run left.
\<close>

theorem C1_cached_run_is_noop:
  assumes "results fs = Some w"
    and "distinct (map filepath_of (scanned w))"
    and "\<forall>x \<in> set (scanned w). ftext (entry_of x) \<noteq> None"
    and "raised (main sc ev fs) = None"
    and "MsgWriteError \<notin> set (printed (main sc ev fs))"
    and "MsgSaveWarning PROCESSED_LOG_FILE \<notin> set (printed (main sc ev fs))"
  shows "main sc ev' (final (main sc ev fs)) =
     \<lparr>final = final (main sc ev fs),
      printed = [MsgStartScan, MsgScanComplete 0 (length (scanned w)), MsgUpToDate],
      raised = None\<rparr>"
proof (cases rule: main_cases [of fs ev sc])
  case makedirs_raised
  with assms(4) show ?thesis by simp
next
  case no_root
  with assms(1) show ?thesis by simp
next
  case (scan_raised w' e ms)
  with assms(4) show ?thesis by simp
next
  case (up_to_date w' st)
  let ?ini = "init_state (load_json_data (log_file fs))"
  from up_to_date(2) assms(1) have w: "w' = w" by simp
  have s: "scan_list (parser_of sc) (load_json_data (cache_file fs)) ?ini (scanned w) = Inr st"
    using up_to_date(3) by (simp add: scan_dirs_flat w)
  have "new_files_count st = new_files_count ?ini"
    using up_to_date(4) by (simp add: init_state_def)
  from scan_noop [OF s this]
  have h: "\<forall>x \<in> set (scanned w). is_hit (load_json_data (log_file fs)) x"
    by (simp add: init_state_def)
  have f: "final (main sc ev fs) = fs\<lparr>out_dir := True\<rparr>"
    by (simp add: up_to_date(6))
  show ?thesis
    unfolding f
    by (rule main_all_hits) (use assms(1) h in simp_all)
next
  case (synthesis w' st)
  let ?ini = "init_state (load_json_data (log_file fs))"
  let ?st = "st\<lparr>out := out st @ [MsgScanComplete (new_files_count st) (skipped_files_count st)]\<rparr>"
  let ?fs = "fs\<lparr>out_dir := True\<rparr>"
  from synthesis(2) assms(1) have w: "w' = w" by simp
  have s: "scan_list (parser_of sc) (load_json_data (cache_file fs)) ?ini (scanned w) = Inr st"
    using synthesis(3) by (simp add: scan_dirs_flat w)
  have good: "\<forall>x \<in> set (scanned w). \<forall>r. parser_of sc (filepath_of x) (ftext (entry_of x)) = Inr r \<longrightarrow>
           r \<noteq> None \<and> r \<noteq> Some []"
    using assms(3) parser_of_readable by fastforce
  from scan_log_complete [OF s assms(2) good]
  have h: "\<forall>x \<in> set (scanned w). is_hit (processed_files_log st) x" .
  have c: "clean (out ?st)"
    using synthesis(5) by (simp add: clean_def is_error_def)
  show ?thesis
  proof (rule synth_cases [OF c, of sc ev ?fs], goal_cases)
    case (1 ms fs')
    with assms(5) synthesis(6) show ?case by simp
  next
    case (2 book names ms0 book' ms fs')
    have m: "main sc ev fs =
       \<lparr>final = fs'\<lparr>cache_file := write_file (save_cache ev) (clean_cache (data_by_prefetcher st)) (cache_file fs),
                    log_file := write_file (save_log ev) (processed_files_log st) (log_file fs)\<rparr>,
        printed = ms @ (if save_cache ev = Written then [] else [MsgSaveWarning DATA_CACHE_FILE]) @
                  (if save_log ev = Written then [] else [MsgSaveWarning PROCESSED_LOG_FILE]) @ [MsgSuccess],
        raised = None\<rparr>"
      using 2(5) synthesis(6) by simp
    from assms(6) have sl: "save_log ev = Written"
      by (auto simp: m split: if_splits)
    let ?f = "final (main sc ev fs)"
    have "out_dir ?f" and "results ?f = Some w" and "log_file ?f = Holds (processed_files_log st)"
      using persist_book_Inr(3,4) [OF 2(3)] assms(1) sl
      by (simp_all add: m write_file_def)
    then show ?case
      using h by (intro main_all_hits) (simp_all add: load_json_data_def)
  qed
qed

text \<open>
  C1 on the example tree: the first run of \<^verbatim>\<open>collect_data.py\<close> processes the one file
  and succeeds; the second run is a no-op.
\<close>

theorem C1_cached_run_is_noop_witness:
  "results example_fs = Some example_walk \<and>
   distinct (map filepath_of (scanned example_walk)) \<and>
   list_all (\<lambda>x. ftext (entry_of x) \<noteq> None) (scanned example_walk) \<and>
   raised (main CollectData ok_env example_fs) = None \<and>
   printed (main CollectData ok_env example_fs) =
     [MsgStartScan, MsgProcessingDir ''pref_l1/berti/exp1'', MsgScanComplete 1 0, MsgUpdating,
      MsgGroup ''pref_l1_berti'', MsgSheetDone ''raw_pref_l1_berti'', MsgSuccess] \<and>
   main CollectData ok_env (final (main CollectData ok_env example_fs)) =
     \<lparr>final = final (main CollectData ok_env example_fs),
      printed = [MsgStartScan, MsgScanComplete 0 1, MsgUpToDate], raised = None\<rparr>"
proof -
  have h1: "results example_fs = Some example_walk" by (simp add: example_fs_def empty_fs_def)
  have h2: "distinct (map filepath_of (scanned example_walk))" by (simp add: scanned_example)
  have h3: "\<forall>x \<in> set (scanned example_walk). ftext (entry_of x) \<noteq> None"
    by (simp add: scanned_example entry_of_def example_file_def)
  note r = run1_example
  have h5: "MsgWriteError \<notin> set (printed (main CollectData ok_env example_fs))"
    and h6: "MsgSaveWarning PROCESSED_LOG_FILE \<notin> set (printed (main CollectData ok_env example_fs))"
    by (simp_all add: r)
  from C1_cached_run_is_noop [OF h1 h2 h3 r(1) h5 h6, of ok_env]
  have "main CollectData ok_env (final (main CollectData ok_env example_fs)) =
     \<lparr>final = final (main CollectData ok_env example_fs),
      printed = [MsgStartScan, MsgScanComplete 0 1, MsgUpToDate], raised = None\<rparr>"
    by (simp add: scanned_example)
  with h1 h2 h3 r show ?thesis by (simp add: list_all_iff)
qed

lemma scan_step_parse_cong:
  assumes "parse' (filepath_of x) (ftext (entry_of x)) = parse (filepath_of x) (ftext (entry_of x))"
  shows "scan_step parse' cd st x = scan_step parse cd st x"
  using assms
  by (cases x)
     (auto simp: scan_step_def scan_file_def filepath_of_def entry_of_def Let_def
        split: option.splits)

lemma scan_step_hit_parse:
  assumes "is_hit (processed_files_log st) x"
  shows "scan_step parse' cd st x = scan_step parse cd st x"
  by (simp add: scan_step_hit [OF assms])

lemma scan_step_is_hit:
  assumes "scan_step parse cd st x = Inr st'" and "filepath_of y \<noteq> filepath_of x"
  shows "is_hit (processed_files_log st') y = is_hit (processed_files_log st) y"
  using scan_step_log [OF assms] by (simp add: is_hit_def)

text \<open>The record the dataset holds for a scanned file after the scan.\<close>

lemma scan_records:
  assumes "scan_list parse cd st xs = Inr st'" and "distinct (map filepath_of xs)" and "x \<in> set xs"
  shows "lookup (data_by_prefetcher st') (group_of x) (filepath_of x) =
     (case expected_record parse cd (processed_files_log st) x of
        Some r \<Rightarrow> Some r
      | None \<Rightarrow> lookup (data_by_prefetcher st) (group_of x) (filepath_of x))"
  using assms
proof (induction xs arbitrary: st)
  case Nil
  then show ?case by simp
next
  case (Cons y ys)
  from Cons.prems(1) obtain st1 where s: "scan_step parse cd st y = Inr st1"
    and r: "scan_list parse cd st1 ys = Inr st'"
    by (auto simp: scan_list_step simp del: scan_list.simps split: sum.splits)
  from Cons.prems(2) have ny: "filepath_of y \<notin> filepath_of ` set ys" and d: "distinct (map filepath_of ys)"
    by auto
  show ?case
  proof (cases "x \<in> set ys")
    case True
    with ny have ne: "filepath_of x \<noteq> filepath_of y" by (metis image_eqI)
    have "expected_record parse cd (processed_files_log st1) x =
          expected_record parse cd (processed_files_log st) x"
      using scan_step_is_hit [OF s ne] by (simp add: expected_record_def)
    moreover have "lookup (data_by_prefetcher st1) (group_of x) (filepath_of x) =
          lookup (data_by_prefetcher st) (group_of x) (filepath_of x)"
      by (rule scan_step_data [OF s ne])
    ultimately show ?thesis using Cons.IH [OF r d True] by (simp split: option.splits)
  next
    case False
    with Cons.prems(3) have xy: "x = y" by simp
    have rest: "lookup (data_by_prefetcher st') (group_of y) (filepath_of y) =
          lookup (data_by_prefetcher st1) (group_of y) (filepath_of y)"
      using scan_list_data [OF r] ny by simp
    show ?thesis
      unfolding xy
    proof (cases "is_hit (processed_files_log st) y")
      case True
      from s scan_step_hit [OF True, of parse cd]
      have "data_by_prefetcher st1 =
              (case lookup cd (group_of y) (filepath_of y) of
                 None \<Rightarrow> data_by_prefetcher st
               | Some r \<Rightarrow> store (group_of y) (filepath_of y) r (data_by_prefetcher st))"
        by auto
      then show "lookup (data_by_prefetcher st') (group_of y) (filepath_of y) =
         (case expected_record parse cd (processed_files_log st) y of
            Some r \<Rightarrow> Some r
          | None \<Rightarrow> lookup (data_by_prefetcher st) (group_of y) (filepath_of y))"
        by (simp add: rest expected_record_def True lookup_store split: option.splits)
    next
      case False
      from False s
      show "lookup (data_by_prefetcher st') (group_of y) (filepath_of y) =
         (case expected_record parse cd (processed_files_log st) y of
            Some r \<Rightarrow> Some r
          | None \<Rightarrow> lookup (data_by_prefetcher st) (group_of y) (filepath_of y))"
        by (cases rule: scan_step_miss)
           (simp_all add: rest expected_record_def lookup_store False)
    qed
  qed
qed

text \<open>The scan asks the extractor about the files that are not cache hits, and about no other.\<close>

lemma scan_parse_indep:
  assumes "distinct (map filepath_of xs)"
    and "\<forall>x \<in> set xs. \<not> is_hit (processed_files_log st) x \<longrightarrow>
           parse' (filepath_of x) (ftext (entry_of x)) = parse (filepath_of x) (ftext (entry_of x))"
  shows "scan_list parse' cd st xs = scan_list parse cd st xs"
  using assms
proof (induction xs arbitrary: st)
  case Nil
  then show ?case by simp
next
  case (Cons y ys)
  have e: "scan_step parse' cd st y = scan_step parse cd st y"
  proof (cases "is_hit (processed_files_log st) y")
    case True
    then show ?thesis by (rule scan_step_hit_parse)
  next
    case False
    with Cons.prems(2) show ?thesis by (intro scan_step_parse_cong) simp
  qed
  show ?case
  proof (cases "scan_step parse cd st y")
    case (Inl a)
    with e show ?thesis by (simp add: scan_list_step del: scan_list.simps)
  next
    case (Inr st1)
    from Cons.prems(1) have ny: "filepath_of y \<notin> filepath_of ` set ys" and d: "distinct (map filepath_of ys)"
      by auto
    have "\<forall>x \<in> set ys. \<not> is_hit (processed_files_log st1) x \<longrightarrow>
           parse' (filepath_of x) (ftext (entry_of x)) = parse (filepath_of x) (ftext (entry_of x))"
    proof
      fix x assume x: "x \<in> set ys"
      with ny have "filepath_of x \<noteq> filepath_of y" by (metis image_eqI)
      from scan_step_is_hit [OF Inr this] Cons.prems(2) x
      show "\<not> is_hit (processed_files_log st1) x \<longrightarrow>
           parse' (filepath_of x) (ftext (entry_of x)) = parse (filepath_of x) (ftext (entry_of x))"
        by simp
    qed
    from Cons.IH [OF d this] e Inr show ?thesis
      by (simp add: scan_list_step del: scan_list.simps)
  qed
qed

lemma scan_counts:
  assumes "scan_list parse cd st xs = Inr st'" and "distinct (map filepath_of xs)"
  shows "new_files_count st' = new_files_count st + length (filter (\<lambda>x. \<not> is_hit (processed_files_log st) x) xs) \<and>
         skipped_files_count st' = skipped_files_count st + length (filter (is_hit (processed_files_log st)) xs)"
  using assms
proof (induction xs arbitrary: st)
  case Nil
  then show ?case by simp
next
  case (Cons y ys)
  from Cons.prems(1) obtain st1 where s: "scan_step parse cd st y = Inr st1"
    and r: "scan_list parse cd st1 ys = Inr st'"
    by (auto simp: scan_list_step simp del: scan_list.simps split: sum.splits)
  from Cons.prems(2) have ny: "filepath_of y \<notin> filepath_of ` set ys" and d: "distinct (map filepath_of ys)"
    by auto
  have same: "\<And>x. x \<in> set ys \<Longrightarrow> is_hit (processed_files_log st1) x = is_hit (processed_files_log st) x"
    using scan_step_is_hit [OF s] ny by (metis image_eqI)
  have f1: "filter (\<lambda>x. \<not> is_hit (processed_files_log st1) x) ys = filter (\<lambda>x. \<not> is_hit (processed_files_log st) x) ys"
    and f2: "filter (is_hit (processed_files_log st1)) ys = filter (is_hit (processed_files_log st)) ys"
    using same by (auto intro: filter_cong)
  have k: "skipped_files_count st1 = (if is_hit (processed_files_log st) y then skipped_files_count st + 1 else skipped_files_count st)"
  proof (cases "is_hit (processed_files_log st) y")
    case True
    with s scan_step_hit [OF True, of parse cd] show ?thesis by auto
  next
    case False
    from False s show ?thesis by (cases rule: scan_step_miss) (simp_all add: False)
  qed
  from Cons.IH [OF r d] scan_step_new [OF s] k show ?case by (simp add: f1 f2)
qed

text \<open>
  Claim C3 (amended). Let the scan return, over a tree in which no two files share a
  path. A file whose modification time equals the one the log holds for its path is
  not handed to the extractor: the scan is the same for every extractor that agrees
  with the given one on the other files. Such a file contributes the record that the
  data cache holds for its path under its group key, and none when the cache holds no
  such record; it is counted as skipped either way. Every other file is counted as
  new and, when it can be read, contributes its freshly extracted record with its
  experiment attached. Each record is stored under the group key of its file, at the
  path of the file.
\<close>

theorem C3_cache_hit_reuse:
  assumes "scan_dirs parse cd (init_state lg) w = Inr st"
    and "distinct (map filepath_of (scanned w))"
  shows "(\<forall>x \<in> set (scanned w).
            lookup (data_by_prefetcher st) (group_of x) (filepath_of x) = expected_record parse cd lg x) \<and>
         (\<forall>parse'.
            (\<forall>x \<in> set (scanned w). \<not> is_hit lg x \<longrightarrow>
               parse' (filepath_of x) (ftext (entry_of x)) = parse (filepath_of x) (ftext (entry_of x))) \<longrightarrow>
            scan_dirs parse' cd (init_state lg) w = Inr st) \<and>
         new_files_count st = length (filter (\<lambda>x. \<not> is_hit lg x) (scanned w)) \<and>
         skipped_files_count st = length (filter (is_hit lg) (scanned w))"
proof -
  have s: "scan_list parse cd (init_state lg) (scanned w) = Inr st"
    using assms(1) by (simp add: scan_dirs_flat)
  have l: "processed_files_log (init_state lg) = lg" by (simp add: init_state_def)
  have 1: "\<forall>x \<in> set (scanned w).
            lookup (data_by_prefetcher st) (group_of x) (filepath_of x) = expected_record parse cd lg x"
  proof
    fix x assume "x \<in> set (scanned w)"
    from scan_records [OF s assms(2) this]
    show "lookup (data_by_prefetcher st) (group_of x) (filepath_of x) = expected_record parse cd lg x"
      by (simp add: l init_state_def lookup_def split: option.splits)
  qed
  have 2: "\<forall>parse'.
            (\<forall>x \<in> set (scanned w). \<not> is_hit lg x \<longrightarrow>
               parse' (filepath_of x) (ftext (entry_of x)) = parse (filepath_of x) (ftext (entry_of x))) \<longrightarrow>
            scan_dirs parse' cd (init_state lg) w = Inr st"
  proof (intro allI impI)
    fix parse'
    assume "\<forall>x \<in> set (scanned w). \<not> is_hit lg x \<longrightarrow>
               parse' (filepath_of x) (ftext (entry_of x)) = parse (filepath_of x) (ftext (entry_of x))"
    then have "scan_list parse' cd (init_state lg) (scanned w) = scan_list parse cd (init_state lg) (scanned w)"
      by (intro scan_parse_indep [OF assms(2)]) (simp add: l)
    with s show "scan_dirs parse' cd (init_state lg) w = Inr st"
      by (simp add: scan_dirs_flat)
  qed
  from scan_counts [OF s assms(2)]
  have 3: "new_files_count st = length (filter (\<lambda>x. \<not> is_hit lg x) (scanned w))"
    and 4: "skipped_files_count st = length (filter (is_hit lg) (scanned w))"
    by (simp_all add: init_state_def)
  from 1 2 3 4 show ?thesis by blast
qed

lemmas scan_eval =
  scan_dir_def scan_file_def derive_keys_def truthy_def root_of_def path_join_def RESULTS_DIR_def
  init_state_def store_def lookup_def example_walk_def example_file_def example_path_def
  example_log_def example_cache_def example_record_def unreadable_walk_def unreadable_file_def
  Let_def

lemma scanned_hit: "is_hit example_log (''pref_l1_berti'', ''exp1'', [''pref_l1'', ''berti'', ''exp1''], example_file)"
  by (simp add: is_hit_def entry_of_def filepath_of_def scan_eval)

text \<open>
  C3 on the example tree with the log and the data cache of an earlier run: the cached
  record is reused, and an extractor that always raises gives the same scan.
\<close>

theorem C3_cache_hit_reuse_witness:
  "\<exists>st. scan_dirs parse_champsim_file example_cache (init_state example_log) example_walk = Inr st \<and>
        distinct (map filepath_of (scanned example_walk)) \<and>
        list_all (is_hit example_log) (scanned example_walk) \<and>
        lookup (data_by_prefetcher st) ''pref_l1_berti'' example_path = Some example_record \<and>
        scan_dirs (\<lambda>p t. Inl ValueError) example_cache (init_state example_log) example_walk = Inr st \<and>
        new_files_count st = 0 \<and> skipped_files_count st = 1"
proof -
  obtain st where s: "scan_dirs parse_champsim_file example_cache (init_state example_log) example_walk = Inr st"
    by (simp add: scan_eval)
  have d: "distinct (map filepath_of (scanned example_walk))" by (simp add: scanned_example)
  note c = C3_cache_hit_reuse [OF s d]
  have h: "list_all (is_hit example_log) (scanned example_walk)"
    by (simp add: scanned_example scanned_hit)
  let ?x = "(''pref_l1_berti'', ''exp1'', [''pref_l1'', ''berti'', ''exp1''], example_file)"
  have x: "?x \<in> set (scanned example_walk)" by (simp add: scanned_example)
  have g: "group_of ?x = ''pref_l1_berti''" and p: "filepath_of ?x = example_path"
    by (simp_all add: group_of_def filepath_of_def scan_eval)
  have e: "expected_record parse_champsim_file example_cache example_log ?x = Some example_record"
    by (simp add: expected_record_def scanned_hit g p lookup_def example_cache_def)
  from c x have "lookup (data_by_prefetcher st) (group_of ?x) (filepath_of ?x) =
      expected_record parse_champsim_file example_cache example_log ?x"
    by blast
  then have 1: "lookup (data_by_prefetcher st) ''pref_l1_berti'' example_path = Some example_record"
    by (simp only: g p e)
  from c h have 2: "scan_dirs (\<lambda>p t. Inl ValueError) example_cache (init_state example_log) example_walk = Inr st"
    by (simp add: list_all_iff)
  from c h have 3: "new_files_count st = 0" and 4: "skipped_files_count st = 1"
    by (simp_all add: scanned_example scanned_hit)
  from s d h 1 2 3 4 show ?thesis by blast
qed

text \<open>
  C3 as stated fails when the log holds the file but the data cache does not (the cache
  file was deleted, or could not be decoded): the file is scanned, recognized and
  readable, yet it is counted as skipped and the dataset holds no record for it.
\<close>

theorem C3_counterexample:
  "ftext example_file = Some ''CPU 0 cumulative IPC: 0.5'' \<and>
   scanned example_walk = [(''pref_l1_berti'', ''exp1'', [''pref_l1'', ''berti'', ''exp1''], example_file)] \<and>
   (\<exists>st. scan_dirs parse_champsim_file [] (init_state example_log) example_walk = Inr st \<and>
         data_by_prefetcher st = [] \<and> new_files_count st = 0 \<and> skipped_files_count st = 1)"
  by (simp add: scanned_example) (simp add: scan_eval)

section \<open>Fatal conditions\<close>

text \<open>
  Claim C8 (amended). On a missing input root the run prints the one message that says
  so and writes nothing but the output directory. Whenever a run has found new files
  and persisting the workbook raises (the save raises, or in the newer script the move
  raises), the run prints exactly one error message, as its last message, and leaves
  both cache files as they were; it leaves the report as it was unless the failing
  write had already opened the report's own path. The same holds of every run that
  prints the error message of the \<^verbatim>\<open>try\<close> block, whatever made the block fail. In all
  these cases \<open>main\<close> returns, so the completion status is 0.
\<close>

theorem C8_fatal_conditions:
  "(results fs = None \<and> (out_dir fs \<or> makedirs_ok ev) \<longrightarrow>
      main sc ev fs = \<lparr>final = fs\<lparr>out_dir := True\<rparr>, printed = [MsgDirNotFound], raised = None\<rparr> \<and>
      exit_status (main sc ev fs) = 0) \<and>
   (results fs = Some w \<and> (out_dir fs \<or> makedirs_ok ev) \<and>
    scan_dirs (parser_of sc) (load_json_data (cache_file fs))
      (init_state (load_json_data (log_file fs))) w = Inr st \<and>
    new_files_count st \<noteq> 0 \<and>
    (save_book ev \<noteq> Written \<or> (sc = CollectDataNew \<and> move_book ev \<noteq> Written)) \<longrightarrow>
      filter is_error (printed (main sc ev fs)) = [MsgWriteError] \<and>
      last (printed (main sc ev fs)) = MsgWriteError \<and>
      cache_file (final (main sc ev fs)) = cache_file fs \<and>
      log_file (final (main sc ev fs)) = log_file fs \<and>
      exit_status (main sc ev fs) = 0 \<and>
      ((sc = CollectData \<and> save_book ev \<noteq> FailsPartial) \<or>
       (sc = CollectDataNew \<and> (save_book ev \<noteq> Written \<or> move_book ev \<noteq> FailsPartial)) \<longrightarrow>
       report (final (main sc ev fs)) = report fs)) \<and>
   (MsgWriteError \<in> set (printed (main sc ev fs)) \<longrightarrow>
      filter is_error (printed (main sc ev fs)) = [MsgWriteError] \<and>
      last (printed (main sc ev fs)) = MsgWriteError \<and>
      cache_file (final (main sc ev fs)) = cache_file fs \<and>
      log_file (final (main sc ev fs)) = log_file fs \<and>
      exit_status (main sc ev fs) = 0 \<and>
      ((sc = CollectData \<and> save_book ev \<noteq> FailsPartial) \<or>
       (sc = CollectDataNew \<and> (save_book ev \<noteq> Written \<or> move_book ev \<noteq> FailsPartial)) \<longrightarrow>
       report (final (main sc ev fs)) = report fs))"
proof -
  let ?r = "main sc ev fs"
  let ?concl = "filter is_error (printed ?r) = [MsgWriteError] \<and>
      last (printed ?r) = MsgWriteError \<and>
      cache_file (final ?r) = cache_file fs \<and>
      log_file (final ?r) = log_file fs \<and>
      exit_status ?r = 0 \<and>
      ((sc = CollectData \<and> save_book ev \<noteq> FailsPartial) \<or>
       (sc = CollectDataNew \<and> (save_book ev \<noteq> Written \<or> move_book ev \<noteq> FailsPartial)) \<longrightarrow>
       report (final ?r) = report fs)"
  have err: ?concl if e: "MsgWriteError \<in> set (printed ?r)"
  proof (cases rule: main_cases [of fs ev sc])
    case makedirs_raised
    with e show ?thesis by simp
  next
    case no_root
    with e show ?thesis by simp
  next
    case (scan_raised w x ms)
    with e show ?thesis by (auto simp: clean_def is_error_def)
  next
    case (up_to_date w st)
    with e show ?thesis by (auto simp: clean_def is_error_def)
  next
    case (synthesis w' st')
    let ?st = "st'\<lparr>out := out st' @ [MsgScanComplete (new_files_count st') (skipped_files_count st')]\<rparr>"
    let ?fs = "fs\<lparr>out_dir := True\<rparr>"
    have c: "clean (out ?st)"
      using synthesis(5) by (simp add: clean_def is_error_def)
    have e': "MsgWriteError \<in> set (printed (synth sc ev ?fs ?st))"
      using e synthesis(6) by simp
    note se = synth_error [OF c e']
    show ?thesis
      using se(1-4) se(5) synth_frame(3) [of sc ev ?fs ?st]
      by (auto simp: synthesis(6) exit_status_def)
  qed
  have fail: "MsgWriteError \<in> set (printed ?r)"
    if h: "results fs = Some w \<and> (out_dir fs \<or> makedirs_ok ev) \<and>
      scan_dirs (parser_of sc) (load_json_data (cache_file fs))
        (init_state (load_json_data (log_file fs))) w = Inr st \<and>
      new_files_count st \<noteq> 0 \<and>
      (save_book ev \<noteq> Written \<or> (sc = CollectDataNew \<and> move_book ev \<noteq> Written))"
  proof -
    let ?st = "st\<lparr>out := out st @ [MsgScanComplete (new_files_count st) (skipped_files_count st)]\<rparr>"
    let ?fs = "fs\<lparr>out_dir := True\<rparr>"
    from h have m: "?r = synth sc ev ?fs ?st" by (auto simp: main_def Let_def)
    from h have "clean (out st)" by (auto dest: scan_dirs_clean_Inr)
    then have c: "clean (out ?st)" by (simp add: clean_def is_error_def)
    show ?thesis
    proof (rule synth_cases [OF c, of sc ev ?fs], goal_cases)
      case (1 ms fs')
      then show ?case by (simp add: m)
    next
      case (2 book names ms0 book' ms fs')
      from persist_book_Inr(6,7) [OF 2(3)] h show ?case by auto
    qed
  qed
  have 1: "results fs = None \<and> (out_dir fs \<or> makedirs_ok ev) \<longrightarrow>
      ?r = \<lparr>final = fs\<lparr>out_dir := True\<rparr>, printed = [MsgDirNotFound], raised = None\<rparr> \<and>
      exit_status ?r = 0"
    by (auto simp: main_def exit_status_def)
  show ?thesis
  proof (intro conjI)
    show "results fs = None \<and> (out_dir fs \<or> makedirs_ok ev) \<longrightarrow>
      ?r = \<lparr>final = fs\<lparr>out_dir := True\<rparr>, printed = [MsgDirNotFound], raised = None\<rparr> \<and>
      exit_status ?r = 0"
      by (rule 1)
    show "results fs = Some w \<and> (out_dir fs \<or> makedirs_ok ev) \<and>
      scan_dirs (parser_of sc) (load_json_data (cache_file fs))
        (init_state (load_json_data (log_file fs))) w = Inr st \<and>
      new_files_count st \<noteq> 0 \<and>
      (save_book ev \<noteq> Written \<or> (sc = CollectDataNew \<and> move_book ev \<noteq> Written)) \<longrightarrow> ?concl"
      by (intro impI err fail)
    show "MsgWriteError \<in> set (printed ?r) \<longrightarrow> ?concl"
      by (intro impI err)
  qed
qed

lemma example_scan:
  "\<exists>st. scan_dirs (parser_of CollectData) (load_json_data (cache_file example_fs))
          (init_state (load_json_data (log_file example_fs))) example_walk = Inr st \<and>
        new_files_count st \<noteq> 0"
  "\<exists>st. scan_dirs (parser_of CollectDataNew) (load_json_data (cache_file example_fs))
          (init_state (load_json_data (log_file example_fs))) example_walk = Inr st \<and>
        new_files_count st \<noteq> 0"
  by (simp_all add: scan_eval parser_of_def parse_example init_metrics_def example_fs_def
      empty_fs_def load_json_data_def)

text \<open>
  C8 on the empty file system (no input root), and on the example tree: with the older
  script when the save raises before or after it opened the report, and with the newer
  script when the save to the temporary file raises or the move raises.
\<close>

theorem C8_fatal_conditions_witness:
  "results empty_fs = None \<and> makedirs_ok ok_env \<and>
   printed (main CollectData ok_env empty_fs) = [MsgDirNotFound] \<and>
   exit_status (main CollectData ok_env empty_fs) = 0 \<and>
   results example_fs = Some example_walk \<and>
   report example_fs = Missing \<and> cache_file example_fs = Missing \<and> log_file example_fs = Missing \<and>
   last (printed (main CollectData (ok_env\<lparr>save_book := FailsUntouched\<rparr>) example_fs)) = MsgWriteError \<and>
   filter is_error (printed (main CollectData (ok_env\<lparr>save_book := FailsUntouched\<rparr>) example_fs)) = [MsgWriteError] \<and>
   report (final (main CollectData (ok_env\<lparr>save_book := FailsUntouched\<rparr>) example_fs)) = Missing \<and>
   cache_file (final (main CollectData (ok_env\<lparr>save_book := FailsUntouched\<rparr>) example_fs)) = Missing \<and>
   log_file (final (main CollectData (ok_env\<lparr>save_book := FailsUntouched\<rparr>) example_fs)) = Missing \<and>
   exit_status (main CollectData (ok_env\<lparr>save_book := FailsUntouched\<rparr>) example_fs) = 0 \<and>
   last (printed (main CollectData (ok_env\<lparr>save_book := FailsPartial\<rparr>) example_fs)) = MsgWriteError \<and>
   cache_file (final (main CollectData (ok_env\<lparr>save_book := FailsPartial\<rparr>) example_fs)) = Missing \<and>
   log_file (final (main CollectData (ok_env\<lparr>save_book := FailsPartial\<rparr>) example_fs)) = Missing \<and>
   exit_status (main CollectData (ok_env\<lparr>save_book := FailsPartial\<rparr>) example_fs) = 0 \<and>
   last (printed (main CollectDataNew (ok_env\<lparr>save_book := FailsPartial\<rparr>) example_fs)) = MsgWriteError \<and>
   report (final (main CollectDataNew (ok_env\<lparr>save_book := FailsPartial\<rparr>) example_fs)) = Missing \<and>
   cache_file (final (main CollectDataNew (ok_env\<lparr>save_book := FailsPartial\<rparr>) example_fs)) = Missing \<and>
   log_file (final (main CollectDataNew (ok_env\<lparr>save_book := FailsPartial\<rparr>) example_fs)) = Missing \<and>
   exit_status (main CollectDataNew (ok_env\<lparr>save_book := FailsPartial\<rparr>) example_fs) = 0 \<and>
   last (printed (main CollectDataNew (ok_env\<lparr>move_book := FailsUntouched\<rparr>) example_fs)) = MsgWriteError \<and>
   report (final (main CollectDataNew (ok_env\<lparr>move_book := FailsUntouched\<rparr>) example_fs)) = Missing \<and>
   cache_file (final (main CollectDataNew (ok_env\<lparr>move_book := FailsUntouched\<rparr>) example_fs)) = Missing \<and>
   log_file (final (main CollectDataNew (ok_env\<lparr>move_book := FailsUntouched\<rparr>) example_fs)) = Missing \<and>
   exit_status (main CollectDataNew (ok_env\<lparr>move_book := FailsUntouched\<rparr>) example_fs) = 0"
proof -
  let ?e1 = "ok_env\<lparr>save_book := FailsUntouched\<rparr>"
  let ?e2 = "ok_env\<lparr>save_book := FailsPartial\<rparr>"
  let ?e3 = "ok_env\<lparr>move_book := FailsUntouched\<rparr>"
  have f: "results empty_fs = None" "makedirs_ok ok_env" "results example_fs = Some example_walk"
    "report example_fs = Missing" "cache_file example_fs = Missing" "log_file example_fs = Missing"
    by (simp_all add: empty_fs_def ok_env_def example_fs_def)
  have e: "makedirs_ok ?e1" "save_book ?e1 = FailsUntouched" "makedirs_ok ?e2" "save_book ?e2 = FailsPartial"
    "makedirs_ok ?e3" "save_book ?e3 = Written" "move_book ?e3 = FailsUntouched"
    by (simp_all add: ok_env_def)
  obtain so where so: "scan_dirs (parser_of CollectData) (load_json_data (cache_file example_fs))
          (init_state (load_json_data (log_file example_fs))) example_walk = Inr so"
    and no: "new_files_count so \<noteq> 0"
    using example_scan(1) by blast
  obtain sn where sn: "scan_dirs (parser_of CollectDataNew) (load_json_data (cache_file example_fs))
          (init_state (load_json_data (log_file example_fs))) example_walk = Inr sn"
    and nn: "new_files_count sn \<noteq> 0"
    using example_scan(2) by blast
  from C8_fatal_conditions [of empty_fs ok_env CollectData] f
  have 0: "main CollectData ok_env empty_fs =
      \<lparr>final = empty_fs\<lparr>out_dir := True\<rparr>, printed = [MsgDirNotFound], raised = None\<rparr>"
    "exit_status (main CollectData ok_env empty_fs) = 0"
    by blast+
  from C8_fatal_conditions [of example_fs ?e1 CollectData example_walk so] f(3) e(1,2) so no
  have 1: "filter is_error (printed (main CollectData ?e1 example_fs)) = [MsgWriteError]"
    "last (printed (main CollectData ?e1 example_fs)) = MsgWriteError"
    "cache_file (final (main CollectData ?e1 example_fs)) = cache_file example_fs"
    "log_file (final (main CollectData ?e1 example_fs)) = log_file example_fs"
    "exit_status (main CollectData ?e1 example_fs) = 0"
    "report (final (main CollectData ?e1 example_fs)) = report example_fs"
    by simp_all
  from C8_fatal_conditions [of example_fs ?e2 CollectData example_walk so] f(3) e(3,4) so no
  have 2: "last (printed (main CollectData ?e2 example_fs)) = MsgWriteError"
    "cache_file (final (main CollectData ?e2 example_fs)) = cache_file example_fs"
    "log_file (final (main CollectData ?e2 example_fs)) = log_file example_fs"
    "exit_status (main CollectData ?e2 example_fs) = 0"
    by simp_all
  from C8_fatal_conditions [of example_fs ?e2 CollectDataNew example_walk sn] f(3) e(3,4) sn nn
  have 3: "last (printed (main CollectDataNew ?e2 example_fs)) = MsgWriteError"
    "cache_file (final (main CollectDataNew ?e2 example_fs)) = cache_file example_fs"
    "log_file (final (main CollectDataNew ?e2 example_fs)) = log_file example_fs"
    "exit_status (main CollectDataNew ?e2 example_fs) = 0"
    "report (final (main CollectDataNew ?e2 example_fs)) = report example_fs"
    by simp_all
  from C8_fatal_conditions [of example_fs ?e3 CollectDataNew example_walk sn] f(3) e(5,6,7) sn nn
  have 4: "last (printed (main CollectDataNew ?e3 example_fs)) = MsgWriteError"
    "cache_file (final (main CollectDataNew ?e3 example_fs)) = cache_file example_fs"
    "log_file (final (main CollectDataNew ?e3 example_fs)) = log_file example_fs"
    "exit_status (main CollectDataNew ?e3 example_fs) = 0"
    "report (final (main CollectDataNew ?e3 example_fs)) = report example_fs"
    by simp_all
  have p0: "printed (main CollectData ok_env empty_fs) = [MsgDirNotFound]"
    by (simp add: 0(1))
  show ?thesis
    by (simp add: f p0 0(2) 1 2 3 4)
qed

text \<open>
  C8 as stated fails: in both fatal cases \<open>main\<close> prints its message and returns, and
  the script ends with status 0.
\<close>

theorem C8_counterexample:
  "results empty_fs = None \<and>
   printed (main CollectData ok_env empty_fs) = [MsgDirNotFound] \<and>
   exit_status (main CollectData ok_env empty_fs) = 0 \<and>
   printed (main CollectDataNew ok_env empty_fs) = [MsgDirNotFound] \<and>
   exit_status (main CollectDataNew ok_env empty_fs) = 0 \<and>
   last (printed (main CollectDataNew (ok_env\<lparr>move_book := FailsUntouched\<rparr>) example_fs)) = MsgWriteError \<and>
   exit_status (main CollectDataNew (ok_env\<lparr>move_book := FailsUntouched\<rparr>) example_fs) = 0"
  by (simp add: run_eval parse_example init_metrics_def fields_new_def level_fields_def sort_eval)

section \<open>Unreadable files\<close>











end
